theory Spec2Isabelle
  imports
    Main
    "HOL-Library.Word"
    "HOL-Library.AList"
    "HOL-Library.Char_ord"
    "HOL-Library.List_Lexorder"
    "HOL-Library.Multiset"
    "HOL-Library.Sublist"
begin

section \<open>Response data model (pkg/querier/queryrange/codec.go)\<close>

text \<open>
  Go strings are byte sequences compared bytewise; \<^typ>\<open>string\<close> with the lexicographic
  order on lists of 8-bit characters is the same order. Instants are counted in nanoseconds
  since the epoch.
\<close>

datatype Direction = FORWARD | BACKWARD

record Entry =
  Timestamp :: int
  Line :: string
  StructuredMetadata :: "(string \<times> string) list"
  Parsed :: "(string \<times> string) list"

record Stream =
  Labels :: string
  Entries :: "Entry list"

record PrometheusResponseHeader =
  Name :: string
  Values :: "string list"

text \<open>
  Modelled from the spec: \<open>stats.Result\<close> and \<open>Result.MergeSplit\<close> are not part of
  the sources at hand. The spec describes the statistics record as counters (bytes
  processed, lines processed, queue time) that are combined by addition; the zero value of
  the Go struct is the record of zeros.
\<close>

record stats_Result =
  BytesProcessed :: int
  LinesProcessed :: int
  QueueTime :: int

definition stats_zero :: stats_Result where
  "stats_zero = \<lparr>BytesProcessed = 0, LinesProcessed = 0, QueueTime = 0\<rparr>"

definition MergeSplit :: "stats_Result \<Rightarrow> stats_Result \<Rightarrow> stats_Result" where
  "MergeSplit r m =
     \<lparr>BytesProcessed = BytesProcessed r + BytesProcessed m,
      LinesProcessed = LinesProcessed r + LinesProcessed m,
      QueueTime = QueueTime r + QueueTime m\<rparr>"

record LokiData =
  ResultType :: string
  Result :: "Stream list"

record LokiResponse =
  Status :: string
  Data :: LokiData
  ErrorType :: string
  Error :: string
  Direction :: Direction
  Limit :: "32 word"
  Version :: "32 word"
  Statistics :: stats_Result
  Headers :: "PrometheusResponseHeader list"

text \<open>A series identifier is its label map (\<open>map[string]string\<close>).\<close>

type_synonym SeriesIdentifier = "string \<rightharpoonup> string"

record LokiSeriesResponse =
  Series_Status :: string
  Series_Data :: "SeriesIdentifier list"
  Series_Version :: "32 word"
  Series_Headers :: "PrometheusResponseHeader list"
  Series_Statistics :: stats_Result

record LokiLabelNamesResponse =
  Names_Status :: string
  Names_Data :: "string list"
  Names_Version :: "32 word"
  Names_Headers :: "PrometheusResponseHeader list"
  Names_Statistics :: stats_Result

text \<open>queryrangebase/queryrange.proto: PrometheusResponse, PrometheusData, SampleStream.
  A sample value is a float64, kept as its 64 bits; no operation here looks inside.\<close>

record LegacySample =
  Sample_Value :: "64 word"
  TimestampMs :: int

record SampleStream =
  Sample_labels :: "(string \<times> string) list"
  samples :: "LegacySample list"

record PrometheusData =
  Prom_ResultType :: string
  Prom_Result :: "SampleStream list"

record PrometheusResponse =
  Prom_Status :: string
  Prom_Data :: PrometheusData
  Prom_ErrorType :: string
  Prom_Error :: string
  Prom_Headers :: "PrometheusResponseHeader list"

record LokiPromResponse =
  Response :: PrometheusResponse
  Prom_Statistics :: stats_Result

text \<open>
  Modelled from the spec: \<open>indexStats.Stats\<close> is not part of the sources at hand. The spec
  names its fields (bytes, lines, chunks, streams); the counters are unsigned 64-bit.
\<close>

record IndexStats =
  Stats_Streams :: "64 word"
  Stats_Chunks :: "64 word"
  Stats_Bytes :: "64 word"
  Stats_Entries :: "64 word"

text \<open>The payload of an index-stats response and of a volume response is a pointer, which
  is nil in the responses that \<open>NewEmptyResponse\<close> builds (\<open>&IndexStatsResponse{}\<close>,
  \<open>&VolumeResponse{}\<close>).\<close>

record IndexStatsResponse =
  Stats_Response :: "IndexStats option"
  Stats_Headers :: "PrometheusResponseHeader list"

record Volume =
  Volume_Name :: string
  Volume_Volume :: "64 word"

record logproto_VolumeResponse =
  Volumes :: "Volume list"
  Volume_Limit :: "32 word"

record VolumeResponse =
  Volume_Response :: "logproto_VolumeResponse option"
  Volume_Headers :: "PrometheusResponseHeader list"

text \<open>The zero-copy series views: a view is the undecoded buffer, a merged view the list of
  the views it was merged from.\<close>

type_synonym LokiSeriesResponseView = "8 word list"

record MergedSeriesResponseView =
  responses :: "LokiSeriesResponseView list"

text \<open>The dynamic type of a \<open>queryrangebase.Response\<close>; \<open>OtherResp\<close> stands for every
  response type that \<open>MergeResponse\<close> does not list (its argument is the Go type name).\<close>

datatype Response =
    PromResp LokiPromResponse
  | LokiResp LokiResponse
  | SeriesResp LokiSeriesResponse
  | SeriesViewResp LokiSeriesResponseView
  | MergedViewResp MergedSeriesResponseView
  | LabelNamesResp LokiLabelNamesResponse
  | IndexStatsResp IndexStatsResponse
  | VolumeResp VolumeResponse
  | OtherResp string

text \<open>\<open>httpgrpc.Errorf(code, msg)\<close>, \<open>errors.New\<close>/\<open>fmt.Errorf\<close>, and the run-time panic
  of a failed type assertion \<open>res.(*T)\<close>.\<close>

datatype error =
    HTTPError nat string
  | PlainError string
  | Panic string

text \<open>Functions of this repository and of its libraries that the merger calls and whose
  code is not at hand; they are parameters of the model. \<open>indexStats.MergeStats\<close> and
  \<open>seriesvolume.Merge\<close> are handed the payload pointers as they are, nil ones included.\<close>

record collaborators =
  series_Hash :: "SeriesIdentifier \<Rightarrow> 64 word"
  PrometheusCodec_MergeResponse :: "PrometheusResponse list \<Rightarrow> error + PrometheusResponse"
  indexStats_MergeStats :: "IndexStats option list \<Rightarrow> IndexStats"
  seriesvolume_Merge ::
    "logproto_VolumeResponse option list \<Rightarrow> 32 word \<Rightarrow> logproto_VolumeResponse option"

section \<open>Ordered merge of log streams\<close>

record byDir =
  markers :: "Entry list list"
  direction :: Direction
  labels :: string

text \<open>
  Modelled from the spec: \<open>byDir.merge\<close> is not part of the sources at hand. The spec
  says that a group's entries are returned "concatenated in time order": the chunks of the
  group are ordered by the timestamp of their first entry, ascending for FORWARD and
  descending for BACKWARD, chunks that start at the same instant keep their order of
  arrival, and a chunk without entries contributes nothing.
\<close>

fun chunk_start :: "Entry list \<Rightarrow> int" where
  "chunk_start [] = 0"
| "chunk_start (e # es) = Timestamp e"

definition dir_key :: "Direction \<Rightarrow> Entry list \<Rightarrow> int" where
  "dir_key d m = (case d of FORWARD \<Rightarrow> chunk_start m | BACKWARD \<Rightarrow> - chunk_start m)"

definition byDir_merge :: "byDir \<Rightarrow> Entry list" where
  "byDir_merge a = concat (sort_key (dir_key (direction a)) (filter (\<lambda>m. m \<noteq> []) (markers a)))"

text \<open>
  Modelled from the spec: the \<open>priorityqueue\<close> type and its heap operations are not part
  of the sources at hand. The spec describes a priority structure ordered by the timestamp
  of each stream's first entry (least first for FORWARD, greatest first for BACKWARD), from
  which the globally next entry is popped: the pop returns a stream with that one entry and
  leaves the rest of the stream, when there is one, in the structure. Among streams whose
  first entries carry the same timestamp the one met first is taken.
\<close>

fun head_ts :: "Stream \<Rightarrow> int" where
  "head_ts s = chunk_start (Entries s)"

definition pq_before :: "Direction \<Rightarrow> Stream \<Rightarrow> Stream \<Rightarrow> bool" where
  "pq_before d a b = (if d = FORWARD then head_ts a < head_ts b else head_ts a > head_ts b)"

fun pq_next :: "Direction \<Rightarrow> Stream \<Rightarrow> Stream list \<Rightarrow> Stream" where
  "pq_next d best [] = best"
| "pq_next d best (s # ss) = pq_next d (if pq_before d s best then s else best) ss"

fun pq_pop :: "Direction \<Rightarrow> Stream list \<Rightarrow> Stream \<times> Stream list" where
  "pq_pop d [] = (\<lparr>Labels = [], Entries = []\<rparr>, [])"
| "pq_pop d (s0 # ss) =
     (let s = pq_next d s0 ss;
          rest = remove1 s (s0 # ss)
      in (\<lparr>Labels = Labels s, Entries = take 1 (Entries s)\<rparr>,
          if length (Entries s) > 1 then rest @ [s\<lparr>Entries := tl (Entries s)\<rparr>] else rest))"

text \<open>The body of the grouping loop: \<open>groups\<close> is the Go map from label-set key to
  \<open>*byDir\<close>, kept as an association list with one pair per key.\<close>

type_synonym groups = "(string \<times> byDir) list"

definition add_stream :: "Direction \<Rightarrow> Stream \<Rightarrow> groups \<times> nat \<Rightarrow> groups \<times> nat" where
  "add_stream d stream acc =
     (let s = (case map_of (fst acc) (Labels stream) of
                 None \<Rightarrow> \<lparr>markers = [], direction = d, labels = Labels stream\<rparr>
               | Some s \<Rightarrow> s)
      in (AList.update (Labels stream) (s\<lparr>markers := markers s @ [Entries stream]\<rparr>) (fst acc),
          snd acc + length (Entries stream)))"

text \<open>The outer loop, with its \<open>break\<close> once the limit has been reached.\<close>

fun group_responses :: "LokiResponse list \<Rightarrow> nat \<Rightarrow> Direction \<Rightarrow> groups \<times> nat \<Rightarrow> groups \<times> nat" where
  "group_responses [] limit d acc = acc"
| "group_responses (resp # resps) limit d acc =
     (let acc' = fold (add_stream d) (Result (Data resp)) acc
      in if snd acc' \<ge> limit then acc' else group_responses resps limit d acc')"

definition sorted_keys :: "Direction \<Rightarrow> groups \<Rightarrow> string list" where
  "sorted_keys d g = (if d = BACKWARD then rev (sort (map fst g)) else sort (map fst g))"

text \<open>\<open>groups[key].merge()\<close>; every key that is looked up comes from the map itself, so the
  lookup of the source never misses.\<close>

definition merged_stream :: "groups \<Rightarrow> string \<Rightarrow> Stream" where
  "merged_stream g key =
     \<lparr>Labels = key,
      Entries = (case map_of g key of Some a \<Rightarrow> byDir_merge a | None \<Rightarrow> [])\<rparr>"

type_synonym resultDict = "(string \<times> Stream) list"

definition append_result :: "Stream \<Rightarrow> resultDict \<Rightarrow> resultDict" where
  "append_result next rd =
     (let s = (case map_of rd (Labels next) of
                 None \<Rightarrow> \<lparr>Labels = Labels next, Entries = []\<rparr>
               | Some s \<Rightarrow> s)
      in AList.update (Labels next) (s\<lparr>Entries := Entries s @ Entries next\<rparr>) rd)"

text \<open>\<open>for i := 0; i < int(limit) && pq.Len() > 0; i++\<close>: the first argument counts the
  iterations that are left.\<close>

fun pop_loop :: "nat \<Rightarrow> Direction \<Rightarrow> Stream list \<Rightarrow> resultDict \<Rightarrow> resultDict" where
  "pop_loop 0 d pq rd = rd"
| "pop_loop (Suc n) d pq rd =
     (if pq = [] then rd
      else (case pq_pop d pq of (next, pq') \<Rightarrow> pop_loop n d pq' (append_result next rd)))"

definition mergeOrderedNonOverlappingStreams ::
  "LokiResponse list \<Rightarrow> 32 word \<Rightarrow> Direction \<Rightarrow> Stream list" where
  "mergeOrderedNonOverlappingStreams resps limit d =
     (case group_responses resps (unat limit) d ([], 0) of (g, n_total) \<Rightarrow>
        let keys = sorted_keys d g in
        if n_total \<le> unat limit then map (merged_stream g) keys
        else
          let pq = filter (\<lambda>s. length (Entries s) > 0) (map (merged_stream g) keys);
              rd = pop_loop (unat limit) d pq []
          in List.map_filter (map_of rd) keys)"

definition Count :: "LokiResponse \<Rightarrow> int" where
  "Count res = foldl (\<lambda>result s. result + int (length (Entries s))) 0 (Result (Data res))"

section \<open>MergeResponse\<close>

fun as_LokiResponse :: "Response \<Rightarrow> LokiResponse option" where
  "as_LokiResponse (LokiResp r) = Some r"
| "as_LokiResponse _ = None"

fun as_LokiPromResponse :: "Response \<Rightarrow> LokiPromResponse option" where
  "as_LokiPromResponse (PromResp r) = Some r"
| "as_LokiPromResponse _ = None"

fun as_LokiSeriesResponse :: "Response \<Rightarrow> LokiSeriesResponse option" where
  "as_LokiSeriesResponse (SeriesResp r) = Some r"
| "as_LokiSeriesResponse _ = None"

fun as_LokiSeriesResponseView :: "Response \<Rightarrow> LokiSeriesResponseView option" where
  "as_LokiSeriesResponseView (SeriesViewResp r) = Some r"
| "as_LokiSeriesResponseView _ = None"

fun as_MergedSeriesResponseView :: "Response \<Rightarrow> MergedSeriesResponseView option" where
  "as_MergedSeriesResponseView (MergedViewResp r) = Some r"
| "as_MergedSeriesResponseView _ = None"

fun as_LokiLabelNamesResponse :: "Response \<Rightarrow> LokiLabelNamesResponse option" where
  "as_LokiLabelNamesResponse (LabelNamesResp r) = Some r"
| "as_LokiLabelNamesResponse _ = None"

fun as_IndexStatsResponse :: "Response \<Rightarrow> IndexStatsResponse option" where
  "as_IndexStatsResponse (IndexStatsResp r) = Some r"
| "as_IndexStatsResponse _ = None"

fun as_VolumeResponse :: "Response \<Rightarrow> VolumeResponse option" where
  "as_VolumeResponse (VolumeResp r) = Some r"
| "as_VolumeResponse _ = None"

text \<open>Every loop of the merger asserts the type of each element; the first element that
  has another type panics, whatever was accumulated before.\<close>

definition assert_all :: "(Response \<Rightarrow> 'a option) \<Rightarrow> Response list \<Rightarrow> error + 'a list" where
  "assert_all as rs =
     (case those (map as rs) of
        None \<Rightarrow> Inl (Panic ''interface conversion'')
      | Some xs \<Rightarrow> Inr xs)"

definition merged_stats :: "stats_Result list \<Rightarrow> stats_Result" where
  "merged_stats ss = foldl MergeSplit stats_zero ss"

definition QueryStatusSuccess :: string where
  "QueryStatusSuccess = ''success''"

definition ResultTypeStream :: string where
  "ResultTypeStream = ''streams''"

definition mergeLokiResponse :: "Response list \<Rightarrow> error + LokiResponse option" where
  "mergeLokiResponse rs =
     (if rs = [] then Inr None
      else case assert_all as_LokiResponse rs of
        Inl e \<Rightarrow> Inl e
      | Inr lokiResponses \<Rightarrow>
          (case lokiResponses of
             [] \<Rightarrow> Inr None
           | lokiRes # _ \<Rightarrow>
               Inr (Some
                 \<lparr>Status = QueryStatusSuccess,
                  Data = \<lparr>ResultType = ResultTypeStream,
                          Result = mergeOrderedNonOverlappingStreams lokiResponses
                                     (Limit lokiRes) (Direction lokiRes)\<rparr>,
                  ErrorType = ErrorType lokiRes,
                  Error = Error lokiRes,
                  Direction = Direction lokiRes,
                  Limit = Limit lokiRes,
                  Version = Version lokiRes,
                  Statistics = merged_stats (map Statistics lokiResponses),
                  Headers = []\<rparr>)))"

text \<open>The deduplication loops: the set of keys seen so far and the survivors, in the order
  in which they were appended.\<close>

fun unique_series ::
  "(SeriesIdentifier \<Rightarrow> 64 word) \<Rightarrow> SeriesIdentifier list \<Rightarrow>
   SeriesIdentifier list \<times> 64 word set \<Rightarrow> SeriesIdentifier list \<times> 64 word set" where
  "unique_series h [] acc = acc"
| "unique_series h (series # rest) (lokiSeriesData, uniqueSeries) =
     (let key = h series
      in if key \<notin> uniqueSeries
         then unique_series h rest (lokiSeriesData @ [series], insert key uniqueSeries)
         else unique_series h rest (lokiSeriesData, uniqueSeries))"

fun unique_names :: "string list \<Rightarrow> string list \<times> string set \<Rightarrow> string list \<times> string set" where
  "unique_names [] acc = acc"
| "unique_names (labelName # rest) (names, uniqueNames) =
     (if labelName \<notin> uniqueNames
      then unique_names rest (names @ [labelName], insert labelName uniqueNames)
      else unique_names rest (names, uniqueNames))"

definition merge_series :: "(SeriesIdentifier \<Rightarrow> 64 word) \<Rightarrow> LokiSeriesResponse list \<Rightarrow> SeriesIdentifier list" where
  "merge_series h rs = fst (foldl (\<lambda>acc res. unique_series h (Series_Data res) acc) ([], {}) rs)"

definition merge_names :: "LokiLabelNamesResponse list \<Rightarrow> string list" where
  "merge_names rs = fst (foldl (\<lambda>acc res. unique_names (Names_Data res) acc) ([], {}) rs)"

text \<open>The switch on the type of the first response. \<open>mergeLokiResponse\<close> returns nil only
  for no responses, which the first check has excluded. The volume branch reads the limit of
  the first response's payload after its loop, through the payload pointer.\<close>

fun MergeResponse :: "collaborators \<Rightarrow> Response list \<Rightarrow> error + Response" where
  "MergeResponse C [] = Inl (PlainError ''merging responses requires at least one response'')"
| "MergeResponse C (PromResp r0 # rest) =
     (case assert_all as_LokiPromResponse (PromResp r0 # rest) of
        Inl e \<Rightarrow> Inl e
      | Inr rs \<Rightarrow>
          (case PrometheusCodec_MergeResponse C (map Response rs) of
             Inl err \<Rightarrow> Inl err
           | Inr promRes \<Rightarrow>
               Inr (PromResp \<lparr>Response = promRes,
                              Prom_Statistics = merged_stats (map Prom_Statistics rs)\<rparr>)))"
| "MergeResponse C (LokiResp r0 # rest) =
     (case mergeLokiResponse (LokiResp r0 # rest) of
        Inl e \<Rightarrow> Inl e
      | Inr None \<Rightarrow> Inl (Panic ''nil response'')
      | Inr (Some m) \<Rightarrow> Inr (LokiResp m))"
| "MergeResponse C (SeriesResp lokiSeriesRes # rest) =
     (case assert_all as_LokiSeriesResponse (SeriesResp lokiSeriesRes # rest) of
        Inl e \<Rightarrow> Inl e
      | Inr rs \<Rightarrow>
          Inr (SeriesResp
            \<lparr>Series_Status = Series_Status lokiSeriesRes,
             Series_Data = merge_series (series_Hash C) rs,
             Series_Version = Series_Version lokiSeriesRes,
             Series_Headers = [],
             Series_Statistics = merged_stats (map Series_Statistics rs)\<rparr>))"
| "MergeResponse C (SeriesViewResp r0 # rest) =
     (case assert_all as_LokiSeriesResponseView (SeriesViewResp r0 # rest) of
        Inl e \<Rightarrow> Inl e
      | Inr vs \<Rightarrow> Inr (MergedViewResp \<lparr>responses = vs\<rparr>))"
| "MergeResponse C (MergedViewResp r0 # rest) =
     (case assert_all as_MergedSeriesResponseView (MergedViewResp r0 # rest) of
        Inl e \<Rightarrow> Inl e
      | Inr vs \<Rightarrow> Inr (MergedViewResp \<lparr>responses = concat (map responses vs)\<rparr>))"
| "MergeResponse C (LabelNamesResp labelNameRes # rest) =
     (case assert_all as_LokiLabelNamesResponse (LabelNamesResp labelNameRes # rest) of
        Inl e \<Rightarrow> Inl e
      | Inr rs \<Rightarrow>
          Inr (LabelNamesResp
            \<lparr>Names_Status = Names_Status labelNameRes,
             Names_Data = merge_names rs,
             Names_Version = Names_Version labelNameRes,
             Names_Headers = [],
             Names_Statistics = merged_stats (map Names_Statistics rs)\<rparr>))"
| "MergeResponse C (IndexStatsResp r0 # rest) =
     (case assert_all as_IndexStatsResponse (IndexStatsResp r0 # rest) of
        Inl e \<Rightarrow> Inl e
      | Inr rs \<Rightarrow>
          Inr (IndexStatsResp
            \<lparr>Stats_Response = Some (indexStats_MergeStats C (map Stats_Response rs)),
             Stats_Headers = Stats_Headers r0\<rparr>))"
| "MergeResponse C (VolumeResp resp0 # rest) =
     (case assert_all as_VolumeResponse (VolumeResp resp0 # rest) of
        Inl e \<Rightarrow> Inl e
      | Inr rs \<Rightarrow>
          (case Volume_Response resp0 of
             None \<Rightarrow> Inl (Panic ''nil pointer dereference'')
           | Some v0 \<Rightarrow>
               Inr (VolumeResp
                 \<lparr>Volume_Response = seriesvolume_Merge C (map Volume_Response rs) (Volume_Limit v0),
                  Volume_Headers = Volume_Headers resp0\<rparr>)))"
| "MergeResponse C (OtherResp t # rest) =
     Inl (PlainError (''unknown response type ('' @ t @ '') in merging responses''))"

section \<open>Request decoding\<close>

text \<open>
  A \<open>time.Time\<close> is modelled by its instant, in nanoseconds since the epoch; a
  \<open>time.Time\<close> reaches far beyond the instants whose nanosecond count fits an int64, the
  zero \<open>time.Time\<close> (1 January of the year 1) among them. \<open>UnixNano\<close> returns the count as
  an int64, computed in 64-bit arithmetic: outside the years 1678 to 2262 it wraps around.
  A \<open>model.Time\<close> counts milliseconds in an int64, and \<open>Time()\<close> is its instant.
\<close>

definition UnixNano :: "int \<Rightarrow> int" where
  "UnixNano t = sint (word_of_int t :: 64 word)"

type_synonym model_Time = "64 word"

definition Time :: "model_Time \<Rightarrow> int" where
  "Time t = sint t * 1000000"

record LokiRequest =
  Req_Query :: string
  Req_Limit :: "32 word"
  Req_Step :: int
  Req_Interval :: int
  Req_StartTs :: int
  Req_EndTs :: int
  Req_Direction :: Direction
  Req_Path :: string
  Req_Shards :: "string list"

record LokiInstantRequest =
  Inst_Query :: string
  Inst_Limit :: "32 word"
  Inst_TimeTs :: int
  Inst_Direction :: Direction
  Inst_Path :: string
  Inst_Shards :: "string list"

record LokiSeriesRequest =
  Ser_Match :: "string list"
  Ser_StartTs :: int
  Ser_EndTs :: int
  Ser_Path :: string
  Ser_Shards :: "string list"

record logproto_LabelRequest =
  Lbl_Name :: string
  Lbl_Values :: bool
  Lbl_Start :: "int option"
  Lbl_End :: "int option"
  Lbl_Query :: string

record LabelRequest =
  path :: string
  LabelRequest :: logproto_LabelRequest

record IndexStatsRequest =
  From :: model_Time
  Through :: model_Time
  Matchers :: string

record VolumeRequest =
  Vol_From :: model_Time
  Vol_Through :: model_Time
  Vol_Matchers :: string
  Vol_Limit :: "32 word"
  Vol_Step :: int
  Vol_TargetLabels :: "string list"
  Vol_AggregateBy :: string

text \<open>The dynamic type of a \<open>queryrangebase.Request\<close>; \<open>OtherReq\<close> stands for every request
  type that the codec does not list (its argument is the Go type name).\<close>

datatype Request =
    RangeReq LokiRequest
  | InstantReq LokiInstantRequest
  | SeriesReq LokiSeriesRequest
  | LabelReq LabelRequest
  | IndexStatsReq IndexStatsRequest
  | VolumeReq VolumeRequest
  | OtherReq string

text \<open>What the query-string parsers of package \<open>loghttp\<close> hand back, with the fields the
  decoder reads. Durations are nanoseconds.\<close>

record RangeQuery =
  RQ_Start :: int
  RQ_End :: int
  RQ_Step :: int
  RQ_Interval :: int
  RQ_Query :: string
  RQ_Direction :: Direction
  RQ_Limit :: "32 word"
  RQ_Shards :: "string list"

record InstantQuery =
  IQ_Ts :: int
  IQ_Query :: string
  IQ_Limit :: "32 word"
  IQ_Direction :: Direction
  IQ_Shards :: "string list"

record SeriesQuery =
  SQ_Start :: int
  SQ_End :: int
  SQ_Groups :: "string list"
  SQ_Shards :: "string list"

record IndexStatsQuery =
  ISQ_Start :: int
  ISQ_End :: int
  ISQ_Query :: string

record VolumeInstantQuery =
  VIQ_Start :: int
  VIQ_End :: int
  VIQ_Query :: string
  VIQ_Limit :: "32 word"
  VIQ_TargetLabels :: "string list"
  VIQ_AggregateBy :: string

record VolumeRangeQuery =
  VRQ_Start :: int
  VRQ_End :: int
  VRQ_Step :: int
  VRQ_Query :: string
  VRQ_Limit :: "32 word"
  VRQ_TargetLabels :: "string list"
  VRQ_AggregateBy :: string

record http_Request =
  Method :: string
  URL_Path :: string
  RawQuery :: string
  RequestURI :: string
  ContentLength :: int
  Header :: "(string \<times> string list) list"
  Body :: "8 word list"

record httpgrpc_HTTPRequest =
  grpc_Method :: string
  Url :: string
  grpc_Headers :: "(string \<times> string list) list"
  grpc_Body :: "8 word list"

text \<open>The values that the codec reads from and attaches to the request's context.\<close>

record req_context =
  ctx_OrgID :: "string option"
  ctx_QueryTags :: "string option"
  ctx_QueueTime :: "int option"
  ctx_EncodingFlags :: "string list option"

datatype operation =
    QueryRangeOp | InstantQueryOp | SeriesOp | LabelNamesOp | IndexStatsOp | VolumeOp | VolumeRangeOp

text \<open>
  The codec's collaborators whose code is not at hand, as parameters: the route table
  (\<open>getOperation\<close>; \<open>None\<close> when the path matches no route), the form and query-string
  parsers (\<open>Inl\<close> carries the parse failure's message), the standard library's request
  construction, bare formatting (\<open>httpgrpc.Errorf\<close> formats its message with no operand)
  and duration parsing, and the readers of tenant, query tags, queue time and encoding flags.
  For the encoder: the standard library's \<open>Values.Encode\<close> and \<open>URL.String\<close> (of a path
  and a raw query), the float64 arithmetic behind the formatting of a millisecond count as
  fractional seconds (\<open>Seconds_rounded\<close>, see \<open>Sprintf_seconds\<close> below), the reader of header
  values kept in the context, the injection of the query limits of the context into the
  headers (the identity when the context holds none), and the names of the headers.
\<close>

text \<open>\<open>url.Values\<close>: the values stored under each key, as an association list with one pair
  per key; \<open>Values_Get\<close> reads the slice under a key (nil, the empty list, when there is
  none).\<close>

type_synonym url_Values = "(string \<times> string list) list"

type_synonym http_Header = "(string \<times> string list) list"

definition Values_Get :: "url_Values \<Rightarrow> string \<Rightarrow> string list" where
  "Values_Get v k = (case map_of v k of Some xs \<Rightarrow> xs | None \<Rightarrow> [])"

record codec_deps =
  getOperation :: "string \<Rightarrow> operation option"
  ParseForm :: "http_Request \<Rightarrow> string option"
  http_NewRequest :: "string \<Rightarrow> string \<Rightarrow> 8 word list \<Rightarrow> string + http_Request"
  Errorf_message :: "string \<Rightarrow> string"
  ParseRangeQuery :: "http_Request \<Rightarrow> string + RangeQuery"
  ParseInstantQuery :: "http_Request \<Rightarrow> string + InstantQuery"
  ParseAndValidateSeriesQuery :: "http_Request \<Rightarrow> string + SeriesQuery"
  ParseLabelQuery :: "http_Request \<Rightarrow> string + logproto_LabelRequest"
  ParseIndexStatsQuery :: "http_Request \<Rightarrow> string + IndexStatsQuery"
  ParseVolumeInstantQuery :: "http_Request \<Rightarrow> string + VolumeInstantQuery"
  ParseVolumeRangeQuery :: "http_Request \<Rightarrow> string + VolumeRangeQuery"
  RoundToMilliseconds :: "int \<Rightarrow> int \<Rightarrow> model_Time \<times> model_Time"
  labelNamesRoutes_FindSubmatch :: "string \<Rightarrow> string list"
  ExtractOrgIDFromHTTPRequest :: "http_Request \<Rightarrow> error + string"
  ExtractQueryTagsFromHTTP :: "http_Request \<Rightarrow> string"
  QueryQueueTimeHeader :: "http_Request \<Rightarrow> string"
  ParseDuration :: "string \<Rightarrow> int option"
  ExtractEncodingFlagsFromProto :: "httpgrpc_HTTPRequest \<Rightarrow> string list option"
  Values_Encode :: "url_Values \<Rightarrow> string"
  URL_String :: "string \<Rightarrow> string \<Rightarrow> string"
  Seconds_rounded :: "int \<Rightarrow> int"
  ExtractHeader :: "req_context \<Rightarrow> string \<Rightarrow> string"
  InjectQueryLimitsHeader :: "req_context \<Rightarrow> http_Header \<Rightarrow> error + http_Header"
  QueryTagsHTTPHeader :: string
  LokiEncodingFlagsHeader :: string
  LokiActorPathHeader :: string
  OrgIDHeaderName :: string

definition StatusBadRequest :: nat where "StatusBadRequest = 400"
definition StatusNotFound :: nat where "StatusNotFound = 404"
definition StatusInternalServerError :: nat where "StatusInternalServerError = 500"

definition Errorf :: "codec_deps \<Rightarrow> nat \<Rightarrow> string \<Rightarrow> error" where
  "Errorf D code msg = HTTPError code (Errorf_message D msg)"

text \<open>\<open>Duration.Milliseconds\<close>: integer division of the nanoseconds, truncating towards zero.\<close>

definition Milliseconds :: "int \<Rightarrow> int" where
  "Milliseconds d = (if d < 0 then - ((- d) div 1000000) else d div 1000000)"

text \<open>The branches of the decoders' switch. Both decoders run the same code in each branch,
  but for the path that the request keeps and the label name that the RPC-wrapped decoder
  recovers from the URL.\<close>

definition decode_QueryRange :: "codec_deps \<Rightarrow> http_Request \<Rightarrow> string \<Rightarrow> error + Request" where
  "decode_QueryRange D r p =
     (case ParseRangeQuery D r of
        Inl err \<Rightarrow> Inl (Errorf D StatusBadRequest err)
      | Inr rangeQuery \<Rightarrow>
          Inr (RangeReq
            \<lparr>Req_Query = RQ_Query rangeQuery,
             Req_Limit = RQ_Limit rangeQuery,
             Req_Step = Milliseconds (RQ_Step rangeQuery),
             Req_Interval = Milliseconds (RQ_Interval rangeQuery),
             Req_StartTs = RQ_Start rangeQuery,
             Req_EndTs = RQ_End rangeQuery,
             Req_Direction = RQ_Direction rangeQuery,
             Req_Path = p,
             Req_Shards = RQ_Shards rangeQuery\<rparr>))"

definition decode_InstantQuery :: "codec_deps \<Rightarrow> http_Request \<Rightarrow> string \<Rightarrow> error + Request" where
  "decode_InstantQuery D r p =
     (case ParseInstantQuery D r of
        Inl err \<Rightarrow> Inl (Errorf D StatusBadRequest err)
      | Inr req \<Rightarrow>
          Inr (InstantReq
            \<lparr>Inst_Query = IQ_Query req,
             Inst_Limit = IQ_Limit req,
             Inst_TimeTs = IQ_Ts req,
             Inst_Direction = IQ_Direction req,
             Inst_Path = p,
             Inst_Shards = IQ_Shards req\<rparr>))"

definition decode_Series :: "codec_deps \<Rightarrow> http_Request \<Rightarrow> string \<Rightarrow> error + Request" where
  "decode_Series D r p =
     (case ParseAndValidateSeriesQuery D r of
        Inl err \<Rightarrow> Inl (Errorf D StatusBadRequest err)
      | Inr req \<Rightarrow>
          Inr (SeriesReq
            \<lparr>Ser_Match = SQ_Groups req,
             Ser_StartTs = SQ_Start req,
             Ser_EndTs = SQ_End req,
             Ser_Path = p,
             Ser_Shards = SQ_Shards req\<rparr>))"

definition decode_LabelNames :: "codec_deps \<Rightarrow> bool \<Rightarrow> http_Request \<Rightarrow> error + Request" where
  "decode_LabelNames D from_url r =
     (case ParseLabelQuery D r of
        Inl err \<Rightarrow> Inl (Errorf D StatusBadRequest err)
      | Inr req \<Rightarrow>
          let match = labelNamesRoutes_FindSubmatch D (URL_Path r);
              req' = (if from_url \<and> Lbl_Name req = [] \<and> length match > 1
                      then req\<lparr>Lbl_Name := match ! 1, Lbl_Values := True\<rparr> else req)
          in Inr (LabelReq \<lparr>path = URL_Path r, LabelRequest = req'\<rparr>))"

definition decode_IndexStats :: "codec_deps \<Rightarrow> http_Request \<Rightarrow> error + Request" where
  "decode_IndexStats D r =
     (case ParseIndexStatsQuery D r of
        Inl err \<Rightarrow> Inl (Errorf D StatusBadRequest err)
      | Inr req \<Rightarrow>
          (case RoundToMilliseconds D (ISQ_Start req) (ISQ_End req) of (from, through) \<Rightarrow>
             Inr (IndexStatsReq \<lparr>From = from, Through = through, Matchers = ISQ_Query req\<rparr>)))"

definition decode_Volume :: "codec_deps \<Rightarrow> http_Request \<Rightarrow> error + Request" where
  "decode_Volume D r =
     (case ParseVolumeInstantQuery D r of
        Inl err \<Rightarrow> Inl (Errorf D StatusBadRequest err)
      | Inr req \<Rightarrow>
          (case RoundToMilliseconds D (VIQ_Start req) (VIQ_End req) of (from, through) \<Rightarrow>
             Inr (VolumeReq
               \<lparr>Vol_From = from, Vol_Through = through, Vol_Matchers = VIQ_Query req,
                Vol_Limit = VIQ_Limit req, Vol_Step = 0,
                Vol_TargetLabels = VIQ_TargetLabels req,
                Vol_AggregateBy = VIQ_AggregateBy req\<rparr>)))"

definition decode_VolumeRange :: "codec_deps \<Rightarrow> http_Request \<Rightarrow> error + Request" where
  "decode_VolumeRange D r =
     (case ParseVolumeRangeQuery D r of
        Inl err \<Rightarrow> Inl (Errorf D StatusBadRequest err)
      | Inr req \<Rightarrow>
          (case RoundToMilliseconds D (VRQ_Start req) (VRQ_End req) of (from, through) \<Rightarrow>
             Inr (VolumeReq
               \<lparr>Vol_From = from, Vol_Through = through, Vol_Matchers = VRQ_Query req,
                Vol_Limit = VRQ_Limit req, Vol_Step = Milliseconds (VRQ_Step req),
                Vol_TargetLabels = VRQ_TargetLabels req,
                Vol_AggregateBy = VRQ_AggregateBy req\<rparr>)))"

definition DecodeRequest :: "codec_deps \<Rightarrow> http_Request \<Rightarrow> error + Request" where
  "DecodeRequest D r =
     (case ParseForm D r of
        Some err \<Rightarrow> Inl (Errorf D StatusBadRequest err)
      | None \<Rightarrow>
          (case getOperation D (URL_Path r) of
             Some QueryRangeOp \<Rightarrow> decode_QueryRange D r (URL_Path r)
           | Some InstantQueryOp \<Rightarrow> decode_InstantQuery D r (URL_Path r)
           | Some SeriesOp \<Rightarrow> decode_Series D r (URL_Path r)
           | Some LabelNamesOp \<Rightarrow> decode_LabelNames D False r
           | Some IndexStatsOp \<Rightarrow> decode_IndexStats D r
           | Some VolumeOp \<Rightarrow> decode_Volume D r
           | Some VolumeRangeOp \<Rightarrow> decode_VolumeRange D r
           | None \<Rightarrow>
               Inl (Errorf D StatusNotFound (''unknown request path: '' @ URL_Path r))))"

text \<open>The context steps of the RPC-wrapped decoder, in the order of the source: tenant,
  query tags, queue time, encoding flags.\<close>

definition with_OrgID :: "codec_deps \<Rightarrow> req_context \<Rightarrow> http_Request \<Rightarrow> error + req_context" where
  "with_OrgID D ctx httpReq =
     (case ctx_OrgID ctx of
        Some orgID \<Rightarrow> Inr ctx
      | None \<Rightarrow>
          (case ExtractOrgIDFromHTTPRequest D httpReq of
             Inl err \<Rightarrow> Inl err
           | Inr orgID \<Rightarrow> Inr (ctx\<lparr>ctx_OrgID := Some orgID\<rparr>)))"

definition with_QueryTags :: "codec_deps \<Rightarrow> http_Request \<Rightarrow> req_context \<Rightarrow> req_context" where
  "with_QueryTags D httpReq ctx =
     (let queryTags = ExtractQueryTagsFromHTTP D httpReq
      in if queryTags \<noteq> [] then ctx\<lparr>ctx_QueryTags := Some queryTags\<rparr> else ctx)"

definition with_QueueTime :: "codec_deps \<Rightarrow> http_Request \<Rightarrow> req_context \<Rightarrow> req_context" where
  "with_QueueTime D httpReq ctx =
     (let queueTimeHeader = QueryQueueTimeHeader D httpReq
      in if queueTimeHeader \<noteq> []
         then (case ParseDuration D queueTimeHeader of
                 Some queueTime \<Rightarrow> ctx\<lparr>ctx_QueueTime := Some queueTime\<rparr>
               | None \<Rightarrow> ctx)
         else ctx)"

definition with_EncodingFlags :: "codec_deps \<Rightarrow> httpgrpc_HTTPRequest \<Rightarrow> req_context \<Rightarrow> req_context" where
  "with_EncodingFlags D r ctx =
     (case ctx_EncodingFlags ctx of
        Some encFlags \<Rightarrow> ctx
      | None \<Rightarrow>
          (case ExtractEncodingFlagsFromProto D r of
             Some encFlags \<Rightarrow> ctx\<lparr>ctx_EncodingFlags := Some encFlags\<rparr>
           | None \<Rightarrow> ctx))"

text \<open>The result is the pair of the source's first and third results (the request or the
  error) and its second (the context; \<open>None\<close> is the nil context returned when no tenant is
  found).\<close>

definition DecodeHTTPGrpcRequest ::
  "codec_deps \<Rightarrow> req_context \<Rightarrow> httpgrpc_HTTPRequest \<Rightarrow> (error + Request) \<times> req_context option" where
  "DecodeHTTPGrpcRequest D ctx r =
     (case http_NewRequest D (grpc_Method r) (Url r) (grpc_Body r) of
        Inl err \<Rightarrow> (Inl (Errorf D StatusInternalServerError err), Some ctx)
      | Inr httpReq0 \<Rightarrow>
          let httpReq = httpReq0
                \<lparr>RequestURI := Url r,
                 ContentLength := int (length (grpc_Body r)),
                 Header := fold (\<lambda>h hdr. AList.update (fst h) (snd h) hdr)
                             (grpc_Headers r) (Header httpReq0)\<rparr>
          in (case with_OrgID D ctx httpReq of
                Inl err \<Rightarrow> (Inl err, None)
              | Inr ctx1 \<Rightarrow>
                  let ctx' = with_EncodingFlags D r
                               (with_QueueTime D httpReq (with_QueryTags D httpReq ctx1))
                  in (case ParseForm D httpReq of
                        Some err \<Rightarrow> (Inl (Errorf D StatusBadRequest err), Some ctx')
                      | None \<Rightarrow>
                          (case getOperation D (URL_Path httpReq) of
                             Some QueryRangeOp \<Rightarrow> (decode_QueryRange D httpReq (Url r), Some ctx')
                           | Some InstantQueryOp \<Rightarrow> (decode_InstantQuery D httpReq (Url r), Some ctx')
                           | Some SeriesOp \<Rightarrow> (decode_Series D httpReq (Url r), Some ctx')
                           | Some LabelNamesOp \<Rightarrow> (decode_LabelNames D True httpReq, Some ctx')
                           | Some IndexStatsOp \<Rightarrow> (decode_IndexStats D httpReq, Some ctx')
                           | Some VolumeOp \<Rightarrow> (decode_Volume D httpReq, Some ctx')
                           | Some VolumeRangeOp \<Rightarrow> (decode_VolumeRange D httpReq, Some ctx')
                           | None \<Rightarrow>
                               (Inl (Errorf D StatusBadRequest
                                       (''unknown request path: '' @ Url r)),
                                Some ctx')))))"

section \<open>Request encoding\<close>

text \<open>\<open>fmt.Sprintf("%d", n)\<close>: the decimal digits of \<open>n\<close>, after a minus sign when it is
  negative.\<close>

definition digit_char :: "nat \<Rightarrow> char" where
  "digit_char n = char_of (48 + n)"

function nat_decimal :: "nat \<Rightarrow> string" where
  "nat_decimal n =
     (if n < 10 then [digit_char n] else nat_decimal (n div 10) @ [digit_char (n mod 10)])"
  by pat_completeness auto
termination
  by (relation "measure id") auto

declare nat_decimal.simps [simp del]

definition Sprintf_d :: "int \<Rightarrow> string" where
  "Sprintf_d n = (if n < 0 then CHR ''-'' # nat_decimal (nat (- n)) else nat_decimal (nat n))"

text \<open>
  \<open>fmt.Sprintf("%f", float64(ms)/float64(1e3))\<close>: the quotient, a float64, printed with six
  decimals. Floating-point arithmetic is not modelled: the collaborator \<open>Seconds_rounded\<close>
  gives the printed number in millionths (the quotient as float64 arithmetic yields it,
  rounded to six decimals), and \<open>Sprintf_f\<close> is its rendering: sign, integer part, point
  and six digits.
\<close>

definition Sprintf_f :: "int \<Rightarrow> string" where
  "Sprintf_f m =
     (let a = nat \<bar>m\<bar>;
          frac = nat_decimal (a mod 1000000)
      in (if m < 0 then ''-'' else []) @ nat_decimal (a div 1000000) @ ''.''
         @ replicate (6 - length frac) CHR ''0'' @ frac)"

definition Sprintf_seconds :: "codec_deps \<Rightarrow> int \<Rightarrow> string" where
  "Sprintf_seconds D ms = Sprintf_f (Seconds_rounded D ms)"

text \<open>\<open>Direction.String()\<close>: the name of the enum value.\<close>

fun Direction_String :: "Direction \<Rightarrow> string" where
  "Direction_String FORWARD = ''FORWARD''"
| "Direction_String BACKWARD = ''BACKWARD''"

text \<open>\<open>strings.Join\<close>.\<close>

fun Join :: "string list \<Rightarrow> string \<Rightarrow> string" where
  "Join [] sep = []"
| "Join [x] sep = x"
| "Join (x # y # ys) sep = x @ sep @ Join (y # ys) sep"

text \<open>\<open>getQueryTags\<close>: the query tags of the context, empty when there are none.\<close>

definition getQueryTags :: "req_context \<Rightarrow> string" where
  "getQueryTags ctx = (case ctx_QueryTags ctx of Some v \<Rightarrow> v | None \<Rightarrow> [])"

text \<open>\<open>header.Set\<close>; the names that the codec sets are in canonical form already.\<close>

definition Header_Set :: "string \<Rightarrow> string \<Rightarrow> http_Header \<Rightarrow> http_Header" where
  "Header_Set k v h = AList.update k [v] h"

text \<open>The first part of \<open>EncodeRequest\<close>: query tags, encoding flags, actor path, query
  limits, and the tenant, without which the encoder fails.\<close>

definition encode_header :: "codec_deps \<Rightarrow> req_context \<Rightarrow> error + http_Header" where
  "encode_header D ctx =
     (let queryTags = getQueryTags ctx;
          h1 = (if queryTags \<noteq> [] then Header_Set (QueryTagsHTTPHeader D) queryTags [] else []);
          encodingFlags = ExtractHeader D ctx (LokiEncodingFlagsHeader D);
          h2 = (if encodingFlags \<noteq> [] then Header_Set (LokiEncodingFlagsHeader D) encodingFlags h1
                else h1);
          actor = ExtractHeader D ctx (LokiActorPathHeader D);
          h3 = (if actor \<noteq> [] then Header_Set (LokiActorPathHeader D) actor h2 else h2)
      in case InjectQueryLimitsHeader D ctx h3 of
           Inl err \<Rightarrow> Inl err
         | Inr h4 \<Rightarrow>
             (case ctx_OrgID ctx of
                None \<Rightarrow> Inl (PlainError ''no org id'')
              | Some orgID \<Rightarrow> Inr (Header_Set (OrgIDHeaderName D) orgID h4)))"

text \<open>The parameters of each variant, in the order of the source. The bounds of the
  index-stats and volume requests are \<open>model.Time\<close> values, printed as
  \<open>From.Time().UnixNano()\<close>.\<close>

definition params_LokiRequest :: "codec_deps \<Rightarrow> LokiRequest \<Rightarrow> url_Values" where
  "params_LokiRequest D request =
     [(''start'', [Sprintf_d (UnixNano (Req_StartTs request))]),
      (''end'', [Sprintf_d (UnixNano (Req_EndTs request))]),
      (''query'', [Req_Query request]),
      (''direction'', [Direction_String (Req_Direction request)]),
      (''limit'', [Sprintf_d (uint (Req_Limit request))])]
     @ (if length (Req_Shards request) > 0 then [(''shards'', Req_Shards request)] else [])
     @ (if Req_Step request \<noteq> 0
        then [(''step'', [Sprintf_seconds D (Req_Step request)])] else [])
     @ (if Req_Interval request \<noteq> 0
        then [(''interval'', [Sprintf_seconds D (Req_Interval request)])] else [])"

definition params_LokiSeriesRequest :: "LokiSeriesRequest \<Rightarrow> url_Values" where
  "params_LokiSeriesRequest request =
     [(''start'', [Sprintf_d (UnixNano (Ser_StartTs request))]),
      (''end'', [Sprintf_d (UnixNano (Ser_EndTs request))]),
      (''match[]'', Ser_Match request)]
     @ (if length (Ser_Shards request) > 0 then [(''shards'', Ser_Shards request)] else [])"

definition params_LabelRequest :: "int \<Rightarrow> int \<Rightarrow> LabelRequest \<Rightarrow> url_Values" where
  "params_LabelRequest start_ts end_ts request =
     [(''start'', [Sprintf_d (UnixNano start_ts)]),
      (''end'', [Sprintf_d (UnixNano end_ts)]),
      (''query'', [Lbl_Query (LabelRequest request)])]"

definition params_LokiInstantRequest :: "LokiInstantRequest \<Rightarrow> url_Values" where
  "params_LokiInstantRequest request =
     [(''query'', [Inst_Query request]),
      (''direction'', [Direction_String (Inst_Direction request)]),
      (''limit'', [Sprintf_d (uint (Inst_Limit request))]),
      (''time'', [Sprintf_d (UnixNano (Inst_TimeTs request))])]
     @ (if length (Inst_Shards request) > 0 then [(''shards'', Inst_Shards request)] else [])"

definition params_IndexStatsRequest :: "IndexStatsRequest \<Rightarrow> url_Values" where
  "params_IndexStatsRequest request =
     [(''start'', [Sprintf_d (UnixNano (Time (From request)))]),
      (''end'', [Sprintf_d (UnixNano (Time (Through request)))]),
      (''query'', [Matchers request])]"

definition params_VolumeRequest :: "codec_deps \<Rightarrow> VolumeRequest \<Rightarrow> url_Values" where
  "params_VolumeRequest D request =
     [(''start'', [Sprintf_d (UnixNano (Time (Vol_From request)))]),
      (''end'', [Sprintf_d (UnixNano (Time (Vol_Through request)))]),
      (''query'', [Vol_Matchers request]),
      (''limit'', [Sprintf_d (sint (Vol_Limit request))]),
      (''aggregateBy'', [Vol_AggregateBy request])]
     @ (if length (Vol_TargetLabels request) > 0
        then [(''targetLabels'', [Join (Vol_TargetLabels request) '',''])] else [])
     @ (if Vol_Step request \<noteq> 0
        then [(''step'', [Sprintf_seconds D (Vol_Step request)])] else [])"

text \<open>The type switch of \<open>EncodeRequest\<close>: path and parameters of the outbound request. The
  bounds of a label request are pointers, and formatting a nil bound panics.\<close>

fun encode_variant :: "codec_deps \<Rightarrow> Request \<Rightarrow> error + string \<times> url_Values" where
  "encode_variant D (RangeReq request) =
     Inr (''/loki/api/v1/query_range'', params_LokiRequest D request)"
| "encode_variant D (SeriesReq request) =
     Inr (''/loki/api/v1/series'', params_LokiSeriesRequest request)"
| "encode_variant D (LabelReq request) =
     (case (Lbl_Start (LabelRequest request), Lbl_End (LabelRequest request)) of
        (Some start_ts, Some end_ts) \<Rightarrow>
          Inr (path request, params_LabelRequest start_ts end_ts request)
      | _ \<Rightarrow> Inl (Panic ''nil pointer dereference''))"
| "encode_variant D (InstantReq request) =
     Inr (''/loki/api/v1/query'', params_LokiInstantRequest request)"
| "encode_variant D (IndexStatsReq request) =
     Inr (''/loki/api/v1/index/stats'', params_IndexStatsRequest request)"
| "encode_variant D (VolumeReq request) =
     Inr (if Vol_Step request \<noteq> 0 then ''/loki/api/v1/index/volume_range''
          else ''/loki/api/v1/index/volume'',
          params_VolumeRequest D request)"
| "encode_variant D (OtherReq t) =
     Inl (Errorf D StatusInternalServerError (''invalid request format, got ('' @ t @ '')''))"

definition EncodeRequest :: "codec_deps \<Rightarrow> req_context \<Rightarrow> Request \<Rightarrow> error + http_Request" where
  "EncodeRequest D ctx r =
     (case encode_header D ctx of
        Inl err \<Rightarrow> Inl err
      | Inr header \<Rightarrow>
          (case encode_variant D r of
             Inl err \<Rightarrow> Inl err
           | Inr (p, params) \<Rightarrow>
               Inr \<lparr>Method = ''GET'', URL_Path = p, RawQuery = Values_Encode D params,
                    RequestURI = URL_String D p (Values_Encode D params), ContentLength = 0,
                    Header = header, Body = []\<rparr>))"

text \<open>The view that \<open>ParamsFromRequest\<close> and its wrappers give of a request, for the fields
  of the round-trip property: \<open>Query()\<close>, \<open>Start()\<close>, \<open>End()\<close>, \<open>Direction()\<close>,
  \<open>Limit()\<close> and \<open>Shards()\<close>. A volume request is viewed through a synthesized range
  request, whose bounds are \<open>time.UnixMilli\<close> of the nanosecond counts (\<open>UnixNano\<close>) of the
  request's bounds.\<close>

record Params =
  P_Query :: string
  P_Start :: int
  P_End :: int
  P_Direction :: Direction
  P_Limit :: "32 word"
  P_Shards :: "string list"

fun ParamsFromRequest :: "Request \<Rightarrow> error + Params" where
  "ParamsFromRequest (RangeReq r) =
     Inr \<lparr>P_Query = Req_Query r, P_Start = Req_StartTs r, P_End = Req_EndTs r,
          P_Direction = Req_Direction r, P_Limit = Req_Limit r, P_Shards = Req_Shards r\<rparr>"
| "ParamsFromRequest (VolumeReq r) =
     Inr \<lparr>P_Query = Vol_Matchers r,
          P_Start = UnixNano (Time (Vol_From r)) * 1000000,
          P_End = UnixNano (Time (Vol_Through r)) * 1000000,
          P_Direction = FORWARD, P_Limit = Vol_Limit r, P_Shards = []\<rparr>"
| "ParamsFromRequest (InstantReq r) =
     Inr \<lparr>P_Query = Inst_Query r, P_Start = Inst_TimeTs r, P_End = Inst_TimeTs r,
          P_Direction = Inst_Direction r, P_Limit = Inst_Limit r, P_Shards = Inst_Shards r\<rparr>"
| "ParamsFromRequest (SeriesReq r) =
     Inr \<lparr>P_Query = [], P_Start = Ser_StartTs r, P_End = Ser_EndTs r,
          P_Direction = FORWARD, P_Limit = 0, P_Shards = Ser_Shards r\<rparr>"
| "ParamsFromRequest (LabelReq r) =
     (case (Lbl_Start (LabelRequest r), Lbl_End (LabelRequest r)) of
        (Some start_ts, Some end_ts) \<Rightarrow>
          Inr \<lparr>P_Query = Lbl_Query (LabelRequest r), P_Start = start_ts, P_End = end_ts,
               P_Direction = FORWARD, P_Limit = 0, P_Shards = []\<rparr>
      | _ \<Rightarrow> Inl (Panic ''nil pointer dereference''))"
| "ParamsFromRequest (IndexStatsReq r) =
     Inr \<lparr>P_Query = Matchers r, P_Start = Time (From r), P_End = Time (Through r),
          P_Direction = FORWARD, P_Limit = 0, P_Shards = []\<rparr>"
| "ParamsFromRequest (OtherReq t) =
     Inl (PlainError (''expected one of the *LokiRequest, *LokiInstantRequest, *LokiSeriesRequest, *LokiLabelNamesRequest, got ('' @ t @ '')''))"

section \<open>Query strings, routes and parsers\<close>

subsection \<open>Query strings (net/url)\<close>

text \<open>\<open>shouldEscape\<close> in the mode of a query component: letters, digits and the marks
  \<open>- _ . ~\<close> are kept, every other byte is escaped.\<close>

definition shouldEscape :: "char \<Rightarrow> bool" where
  "shouldEscape c =
     (let n = of_char c :: nat
      in \<not> ((97 \<le> n \<and> n \<le> 122) \<or> (65 \<le> n \<and> n \<le> 90) \<or> (48 \<le> n \<and> n \<le> 57)
            \<or> n = 45 \<or> n = 95 \<or> n = 46 \<or> n = 126))"

definition upperhex :: "nat \<Rightarrow> char" where
  "upperhex d = (if d < 10 then char_of (48 + d) else char_of (55 + d))"

definition ishex :: "char \<Rightarrow> bool" where
  "ishex c =
     (let n = of_char c :: nat
      in (48 \<le> n \<and> n \<le> 57) \<or> (97 \<le> n \<and> n \<le> 102) \<or> (65 \<le> n \<and> n \<le> 70))"

definition unhex :: "char \<Rightarrow> nat" where
  "unhex c =
     (let n = of_char c :: nat
      in if 48 \<le> n \<and> n \<le> 57 then n - 48
         else if 97 \<le> n \<and> n \<le> 102 then n - 97 + 10
         else if 65 \<le> n \<and> n \<le> 70 then n - 65 + 10
         else 0)"

text \<open>\<open>QueryEscape\<close>: a space becomes a plus sign, every other escaped byte a percent sign
  and its two hexadecimal digits.\<close>

fun QueryEscape :: "string \<Rightarrow> string" where
  "QueryEscape [] = []"
| "QueryEscape (c # s) =
     (if shouldEscape c
      then (if c = CHR '' '' then CHR ''+'' # QueryEscape s
            else CHR ''%'' # upperhex (of_char c div 16) # upperhex (of_char c mod 16)
                 # QueryEscape s)
      else c # QueryEscape s)"

text \<open>\<open>QueryUnescape\<close>; \<open>None\<close> is the error of a percent sign that two hexadecimal digits
  do not follow.\<close>

fun QueryUnescape :: "string \<Rightarrow> string option" where
  "QueryUnescape [] = Some []"
| "QueryUnescape (c # s) =
     (if c = CHR ''%''
      then (case s of
              a # b # rest \<Rightarrow>
                if ishex a \<and> ishex b
                then map_option ((#) (char_of (unhex a * 16 + unhex b))) (QueryUnescape rest)
                else None
            | _ \<Rightarrow> None)
      else map_option ((#) (if c = CHR ''+'' then CHR '' '' else c)) (QueryUnescape s))"

text \<open>\<open>Values.Encode\<close>: the pairs \<open>key=value\<close>, escaped, in the order of the keys, joined by
  ampersands.\<close>

definition Encode :: "url_Values \<Rightarrow> string" where
  "Encode v =
     Join (concat (map (\<lambda>kvs. map (\<lambda>x. QueryEscape (fst kvs) @ ''='' @ QueryEscape x) (snd kvs))
                       (sort_key fst v))) ''&''"

text \<open>\<open>parseQuery\<close>: the loop cuts the query at each ampersand and the piece at its first
  equals sign; a piece with a semicolon or a bad escape is skipped and leaves an error (the
  operand of the escape error's message is left out).\<close>

function parseQuery :: "url_Values \<Rightarrow> string option \<Rightarrow> string \<Rightarrow> url_Values \<times> string option" where
  "parseQuery m err query =
     (if query = [] then (m, err)
      else
        let key = takeWhile (\<lambda>c. c \<noteq> CHR ''&'') query;
            rest = drop 1 (dropWhile (\<lambda>c. c \<noteq> CHR ''&'') query)
        in if CHR '';'' \<in> set key
           then parseQuery m (Some ''invalid semicolon separator in query'') rest
           else if key = [] then parseQuery m err rest
           else
             (case QueryUnescape (takeWhile (\<lambda>c. c \<noteq> CHR ''='') key) of
                None \<Rightarrow> parseQuery m (if err = None then Some ''invalid URL escape'' else err) rest
              | Some k \<Rightarrow>
                  (case QueryUnescape (drop 1 (dropWhile (\<lambda>c. c \<noteq> CHR ''='') key)) of
                     None \<Rightarrow>
                       parseQuery m (if err = None then Some ''invalid URL escape'' else err) rest
                   | Some v \<Rightarrow> parseQuery (AList.update k (Values_Get m k @ [v]) m) err rest)))"
  by pat_completeness auto
termination
proof -
  have less: "length (dropWhile P q) - Suc 0 < length q" if "q \<noteq> []" for P and q :: string
  proof -
    have "0 < length q" using that by simp
    moreover have "length (dropWhile P q) \<le> length q" by (rule length_dropWhile_le)
    ultimately show ?thesis by arith
  qed
  show ?thesis
    by (relation "measure (\<lambda>(m, err, query). length query)") (auto simp: less)
qed

declare parseQuery.simps [simp del]

text \<open>\<open>Request.ParseForm\<close> of a request without a form in its body, as the encoder builds
  them: the form is the parsed raw query of the URL, and the error is that of the parse.
  \<open>Get\<close> is \<open>Values.Get\<close>, the first value under a key, empty when there is none.\<close>

definition Form :: "http_Request \<Rightarrow> url_Values" where
  "Form r = fst (parseQuery [] None (RawQuery r))"

definition http_ParseForm :: "http_Request \<Rightarrow> string option" where
  "http_ParseForm r = snd (parseQuery [] None (RawQuery r))"

definition Get :: "url_Values \<Rightarrow> string \<Rightarrow> string" where
  "Get v k = (case Values_Get v k of [] \<Rightarrow> [] | x # _ \<Rightarrow> x)"

subsection \<open>Routes\<close>

text \<open>
  Modelled from the spec: \<open>getOperation\<close> is not part of the sources at hand. The spec
  lists the routes of the HTTP surface: query_range, query, series, label, label/{name}/values,
  index/stats, index/volume and index/volume_range under \<open>/loki/api/v1\<close>.
\<close>

definition is_label_values_path :: "string \<Rightarrow> bool" where
  "is_label_values_path p =
     (let pre = ''/loki/api/v1/label/''; suf = ''/values'';
          name = take (length p - length pre - length suf) (drop (length pre) p)
      in p = pre @ name @ suf \<and> name \<noteq> [] \<and> CHR ''/'' \<notin> set name)"

definition route_table :: "string \<Rightarrow> operation option" where
  "route_table p =
     (if p = ''/loki/api/v1/query_range'' then Some QueryRangeOp
      else if p = ''/loki/api/v1/query'' then Some InstantQueryOp
      else if p = ''/loki/api/v1/series'' then Some SeriesOp
      else if p = ''/loki/api/v1/label'' \<or> is_label_values_path p then Some LabelNamesOp
      else if p = ''/loki/api/v1/index/stats'' then Some IndexStatsOp
      else if p = ''/loki/api/v1/index/volume'' then Some VolumeOp
      else if p = ''/loki/api/v1/index/volume_range'' then Some VolumeRangeOp
      else None)"

subsection \<open>Parsers of the query parameters\<close>

text \<open>Reading decimal numbers and direction names.\<close>

definition digit_value :: "char \<Rightarrow> nat option" where
  "digit_value c =
     (let v = of_char c :: nat in if 48 \<le> v \<and> v \<le> 57 then Some (v - 48) else None)"

fun read_digits :: "nat \<Rightarrow> string \<Rightarrow> nat option" where
  "read_digits acc [] = Some acc"
| "read_digits acc (c # cs) =
     (case digit_value c of None \<Rightarrow> None | Some v \<Rightarrow> read_digits (10 * acc + v) cs)"

definition read_nat :: "string \<Rightarrow> nat option" where
  "read_nat s = (if s = [] then None else read_digits 0 s)"

definition read_int :: "string \<Rightarrow> int option" where
  "read_int s =
     (case s of
        [] \<Rightarrow> None
      | c # cs \<Rightarrow> if c = CHR ''-'' then map_option (\<lambda>n. - int n) (read_nat cs)
                  else map_option int (read_nat s))"

definition read_Direction :: "string \<Rightarrow> Direction option" where
  "read_Direction s =
     (if s = ''FORWARD'' then Some FORWARD else if s = ''BACKWARD'' then Some BACKWARD else None)"

text \<open>Fractional seconds, read as a duration in nanoseconds: an optional minus sign, the
  digits of the seconds and, after a point, the digits of the fraction, of which nine
  count.\<close>

definition read_seconds :: "string \<Rightarrow> int option" where
  "read_seconds s =
     (let neg = (take 1 s = ''-'');
          u = (if neg then drop 1 s else s);
          ip = takeWhile (\<lambda>c. c \<noteq> CHR ''.'') u;
          fp = drop 1 (dropWhile (\<lambda>c. c \<noteq> CHR ''.'') u)
      in case (read_nat ip, read_digits 0 fp, read_digits 0 (take 9 (fp @ replicate 9 CHR ''0''))) of
           (Some i, Some _, Some f) \<Rightarrow>
             Some ((if neg then - 1 else 1) * (int i * 1000000000 + int f))
         | _ \<Rightarrow> None)"

definition read_optional_seconds :: "string \<Rightarrow> int option" where
  "read_optional_seconds s = (if s = [] then Some 0 else read_seconds s)"

fun split_on :: "char \<Rightarrow> string \<Rightarrow> string list" where
  "split_on c [] = [[]]"
| "split_on c (x # xs) =
     (if x = c then [] # split_on c xs
      else (case split_on c xs of w # ws \<Rightarrow> (x # w) # ws | [] \<Rightarrow> [[x]]))"

text \<open>
  Modelled from the spec: the query-string parsers of package \<open>loghttp\<close> are not part of
  the sources at hand. The spec lists the parameters of the routes (query, start, end, time,
  step, interval, direction, limit, match[], shards, targetLabels, aggregateBy) and the
  formats in which the encoder writes them: nanosecond integers for timestamps, integers for
  numeric fields, fractional seconds for step and interval, repeated values for shards; it
  says that malformed parameters are rejected with the message of the parse failure and that
  a range query without a query parameter is rejected. Each parser below reads the
  parameters of its route in these formats from the form of the request. A timestamp, a
  limit or a direction that is missing is malformed; a missing step or interval is zero. A
  limit is converted to its 32 bits. Whatever else the parsers check (the syntax of the
  query, the order of the bounds), and the label name that the router binds on a
  label-values route, is not modelled.
\<close>

definition loghttp_ParseRangeQuery :: "http_Request \<Rightarrow> string + RangeQuery" where
  "loghttp_ParseRangeQuery r =
     (let f = Form r
      in if Values_Get f ''query'' = [] then Inl ''missing query''
         else case read_int (Get f ''start'') of None \<Rightarrow> Inl ''cannot parse start'' | Some s \<Rightarrow>
              case read_int (Get f ''end'') of None \<Rightarrow> Inl ''cannot parse end'' | Some e \<Rightarrow>
              case read_optional_seconds (Get f ''step'') of None \<Rightarrow> Inl ''cannot parse step'' | Some st \<Rightarrow>
              case read_optional_seconds (Get f ''interval'') of None \<Rightarrow> Inl ''cannot parse interval'' | Some iv \<Rightarrow>
              case read_Direction (Get f ''direction'') of None \<Rightarrow> Inl ''cannot parse direction'' | Some d \<Rightarrow>
              case read_int (Get f ''limit'') of None \<Rightarrow> Inl ''cannot parse limit'' | Some l \<Rightarrow>
                Inr \<lparr>RQ_Start = s, RQ_End = e, RQ_Step = st, RQ_Interval = iv,
                     RQ_Query = Get f ''query'', RQ_Direction = d, RQ_Limit = word_of_int l,
                     RQ_Shards = Values_Get f ''shards''\<rparr>)"

definition loghttp_ParseInstantQuery :: "http_Request \<Rightarrow> string + InstantQuery" where
  "loghttp_ParseInstantQuery r =
     (let f = Form r
      in if Values_Get f ''query'' = [] then Inl ''missing query''
         else case read_int (Get f ''time'') of None \<Rightarrow> Inl ''cannot parse time'' | Some t \<Rightarrow>
              case read_Direction (Get f ''direction'') of None \<Rightarrow> Inl ''cannot parse direction'' | Some d \<Rightarrow>
              case read_int (Get f ''limit'') of None \<Rightarrow> Inl ''cannot parse limit'' | Some l \<Rightarrow>
                Inr \<lparr>IQ_Ts = t, IQ_Query = Get f ''query'', IQ_Limit = word_of_int l,
                     IQ_Direction = d, IQ_Shards = Values_Get f ''shards''\<rparr>)"

definition loghttp_ParseAndValidateSeriesQuery :: "http_Request \<Rightarrow> string + SeriesQuery" where
  "loghttp_ParseAndValidateSeriesQuery r =
     (let f = Form r
      in case read_int (Get f ''start'') of None \<Rightarrow> Inl ''cannot parse start'' | Some s \<Rightarrow>
         case read_int (Get f ''end'') of None \<Rightarrow> Inl ''cannot parse end'' | Some e \<Rightarrow>
           Inr \<lparr>SQ_Start = s, SQ_End = e, SQ_Groups = Values_Get f ''match[]'',
                SQ_Shards = Values_Get f ''shards''\<rparr>)"

definition loghttp_ParseLabelQuery :: "http_Request \<Rightarrow> string + logproto_LabelRequest" where
  "loghttp_ParseLabelQuery r =
     (let f = Form r
      in case read_int (Get f ''start'') of None \<Rightarrow> Inl ''cannot parse start'' | Some s \<Rightarrow>
         case read_int (Get f ''end'') of None \<Rightarrow> Inl ''cannot parse end'' | Some e \<Rightarrow>
           Inr \<lparr>Lbl_Name = [], Lbl_Values = False, Lbl_Start = Some s, Lbl_End = Some e,
                Lbl_Query = Get f ''query''\<rparr>)"

definition loghttp_ParseIndexStatsQuery :: "http_Request \<Rightarrow> string + IndexStatsQuery" where
  "loghttp_ParseIndexStatsQuery r =
     (let f = Form r
      in case read_int (Get f ''start'') of None \<Rightarrow> Inl ''cannot parse start'' | Some s \<Rightarrow>
         case read_int (Get f ''end'') of None \<Rightarrow> Inl ''cannot parse end'' | Some e \<Rightarrow>
           Inr \<lparr>ISQ_Start = s, ISQ_End = e, ISQ_Query = Get f ''query''\<rparr>)"

definition read_targetLabels :: "string \<Rightarrow> string list" where
  "read_targetLabels s = (if s = [] then [] else split_on (CHR '','') s)"

definition loghttp_ParseVolumeInstantQuery :: "http_Request \<Rightarrow> string + VolumeInstantQuery" where
  "loghttp_ParseVolumeInstantQuery r =
     (let f = Form r
      in case read_int (Get f ''start'') of None \<Rightarrow> Inl ''cannot parse start'' | Some s \<Rightarrow>
         case read_int (Get f ''end'') of None \<Rightarrow> Inl ''cannot parse end'' | Some e \<Rightarrow>
         case read_int (Get f ''limit'') of None \<Rightarrow> Inl ''cannot parse limit'' | Some l \<Rightarrow>
           Inr \<lparr>VIQ_Start = s, VIQ_End = e, VIQ_Query = Get f ''query'',
                VIQ_Limit = word_of_int l,
                VIQ_TargetLabels = read_targetLabels (Get f ''targetLabels''),
                VIQ_AggregateBy = Get f ''aggregateBy''\<rparr>)"

definition loghttp_ParseVolumeRangeQuery :: "http_Request \<Rightarrow> string + VolumeRangeQuery" where
  "loghttp_ParseVolumeRangeQuery r =
     (let f = Form r
      in case read_int (Get f ''start'') of None \<Rightarrow> Inl ''cannot parse start'' | Some s \<Rightarrow>
         case read_int (Get f ''end'') of None \<Rightarrow> Inl ''cannot parse end'' | Some e \<Rightarrow>
         case read_optional_seconds (Get f ''step'') of None \<Rightarrow> Inl ''cannot parse step'' | Some st \<Rightarrow>
         case read_int (Get f ''limit'') of None \<Rightarrow> Inl ''cannot parse limit'' | Some l \<Rightarrow>
           Inr \<lparr>VRQ_Start = s, VRQ_End = e, VRQ_Step = st, VRQ_Query = Get f ''query'',
                VRQ_Limit = word_of_int l,
                VRQ_TargetLabels = read_targetLabels (Get f ''targetLabels''),
                VRQ_AggregateBy = Get f ''aggregateBy''\<rparr>)"

text \<open>
  Modelled from the spec: \<open>util.RoundToMilliseconds\<close> is not part of the sources at hand.
  The bounds of the index-stats and volume requests count milliseconds, and the decoder
  gets them from the parsed instants through this function: the start rounded down and the
  end rounded up to a whole millisecond.
\<close>

definition util_RoundToMilliseconds :: "int \<Rightarrow> int \<Rightarrow> model_Time \<times> model_Time" where
  "util_RoundToMilliseconds from through =
     (word_of_int (UnixNano from div 1000000),
      word_of_int (- ((- UnixNano through) div 1000000)))"

text \<open>The codec with the route table, the form and the parsers above; the remaining
  collaborators (the readers and writers of the context and of the headers, request
  construction, message formatting, float arithmetic) stay parameters.\<close>

definition standard_deps :: "codec_deps \<Rightarrow> codec_deps" where
  "standard_deps D =
     D\<lparr>getOperation := route_table,
       ParseForm := http_ParseForm,
       ParseRangeQuery := loghttp_ParseRangeQuery,
       ParseInstantQuery := loghttp_ParseInstantQuery,
       ParseAndValidateSeriesQuery := loghttp_ParseAndValidateSeriesQuery,
       ParseLabelQuery := loghttp_ParseLabelQuery,
       ParseIndexStatsQuery := loghttp_ParseIndexStatsQuery,
       ParseVolumeInstantQuery := loghttp_ParseVolumeInstantQuery,
       ParseVolumeRangeQuery := loghttp_ParseVolumeRangeQuery,
       RoundToMilliseconds := util_RoundToMilliseconds,
       Values_Encode := Encode\<rparr>"

section \<open>Notions used to state and prove the properties\<close>

text \<open>The number of entries of a list of streams, all streams of a list of responses in the
  order in which the merger reads them, and the streams that the grouping loop has read when
  it stops (it stops after the first response with which the running total reaches the
  limit).\<close>

definition count_entries :: "Stream list \<Rightarrow> nat" where
  "count_entries ss = sum_list (map (\<lambda>s. length (Entries s)) ss)"

definition all_streams :: "LokiResponse list \<Rightarrow> Stream list" where
  "all_streams resps = concat (map (\<lambda>r. Result (Data r)) resps)"

fun consumed :: "LokiResponse list \<Rightarrow> nat \<Rightarrow> nat \<Rightarrow> Stream list" where
  "consumed [] limit t = []"
| "consumed (resp # resps) limit t =
     Result (Data resp) @
       (if t + count_entries (Result (Data resp)) \<ge> limit then []
        else consumed resps limit (t + count_entries (Result (Data resp))))"

text \<open>The chunks of one label set among a list of streams, and the map from label set to
  group that corresponds to a list of streams.\<close>

definition chunks_of :: "string \<Rightarrow> Stream list \<Rightarrow> Entry list list" where
  "chunks_of k ss = map Entries (filter (\<lambda>s. Labels s = k) ss)"

definition groups_of :: "Direction \<Rightarrow> Stream list \<Rightarrow> string \<Rightarrow> byDir option" where
  "groups_of d ss k =
     (if k \<in> Labels ` set ss then Some \<lparr>markers = chunks_of k ss, direction = d, labels = k\<rparr>
      else None)"

text \<open>A well-formed result dictionary: one pair per key, each stream filed under its own
  label set.\<close>

definition rd_ok :: "resultDict \<Rightarrow> bool" where
  "rd_ok rd = (distinct (map fst rd) \<and> (\<forall>k s. map_of rd k = Some s \<longrightarrow> Labels s = k))"

text \<open>The order of the output keys: ascending, and descending for BACKWARD.\<close>

definition key_order :: "Direction \<Rightarrow> string \<Rightarrow> string \<Rightarrow> bool" where
  "key_order d a b = (if d = BACKWARD then b < a else a < b)"

text \<open>What \<open>mergeOrderedNonOverlappingStreams\<close> does after the grouping loop, as a function
  of the sorted keys, the merged stream of each key and the running total.\<close>

definition merge_tail ::
  "Direction \<Rightarrow> nat \<Rightarrow> string list \<Rightarrow> (string \<Rightarrow> Stream) \<Rightarrow> nat \<Rightarrow> Stream list" where
  "merge_tail d limit keys ms n_total =
     (if n_total \<le> limit then map ms keys
      else List.map_filter
             (map_of (pop_loop limit d (filter (\<lambda>s. length (Entries s) > 0) (map ms keys)) []))
             keys)"

text \<open>Label set and first timestamp of every stream that has entries.\<close>

definition start_keys :: "Stream list \<Rightarrow> (string \<times> int) list" where
  "start_keys ss =
     map (\<lambda>s. (Labels s, chunk_start (Entries s))) (filter (\<lambda>s. Entries s \<noteq> []) ss)"

text \<open>Keeping the first element of every key that is not in \<open>seen\<close>: the specification of
  the deduplication loops.\<close>

fun keep_first :: "('a \<Rightarrow> 'k) \<Rightarrow> 'k set \<Rightarrow> 'a list \<Rightarrow> 'a list" where
  "keep_first h seen [] = []"
| "keep_first h seen (x # xs) =
     (if h x \<in> seen then keep_first h seen xs else x # keep_first h (insert (h x) seen) xs)"

text \<open>The field-wise sum of statistics records, and the statistics record that a response
  carries (index-stats and volume responses and the series views carry none).\<close>

definition stats_sum :: "stats_Result list \<Rightarrow> stats_Result" where
  "stats_sum ss =
     \<lparr>BytesProcessed = sum_list (map BytesProcessed ss),
      LinesProcessed = sum_list (map LinesProcessed ss),
      QueueTime = sum_list (map QueueTime ss)\<rparr>"

fun GetStatistics :: "Response \<Rightarrow> stats_Result option" where
  "GetStatistics (PromResp r) = Some (Prom_Statistics r)"
| "GetStatistics (LokiResp r) = Some (Statistics r)"
| "GetStatistics (SeriesResp r) = Some (Series_Statistics r)"
| "GetStatistics (LabelNamesResp r) = Some (Names_Statistics r)"
| "GetStatistics _ = None"

text \<open>The path of a label request is a label route, and the bounds of a request are
  instants whose nanosecond count fits an int64.\<close>

fun label_path_routed :: "Request \<Rightarrow> bool" where
  "label_path_routed (LabelReq lr) = (route_table (path lr) = Some LabelNamesOp)"
| "label_path_routed _ = True"

definition fits_int64 :: "int \<Rightarrow> bool" where
  "fits_int64 t = (- (2 ^ 63) \<le> t \<and> t < 2 ^ 63)"

fun bounds_fit_int64 :: "Request \<Rightarrow> bool" where
  "bounds_fit_int64 (RangeReq r) = (fits_int64 (Req_StartTs r) \<and> fits_int64 (Req_EndTs r))"
| "bounds_fit_int64 (InstantReq r) = fits_int64 (Inst_TimeTs r)"
| "bounds_fit_int64 (SeriesReq r) = (fits_int64 (Ser_StartTs r) \<and> fits_int64 (Ser_EndTs r))"
| "bounds_fit_int64 (LabelReq r) =
     (case (Lbl_Start (LabelRequest r), Lbl_End (LabelRequest r)) of
        (Some start_ts, Some end_ts) \<Rightarrow> fits_int64 start_ts \<and> fits_int64 end_ts
      | _ \<Rightarrow> True)"
| "bounds_fit_int64 (IndexStatsReq r) = (fits_int64 (Time (From r)) \<and> fits_int64 (Time (Through r)))"
| "bounds_fit_int64 (VolumeReq r) =
     (fits_int64 (Time (Vol_From r)) \<and> fits_int64 (Time (Vol_Through r)))"
| "bounds_fit_int64 (OtherReq t) = True"

text \<open>The pieces of an encoded query string: the pairs of a key and one of its values in
  the order in which \<open>Encode\<close> writes them, the text of a pair, and what the loop of
  \<open>parseQuery\<close> does with it.\<close>

definition pairs_of :: "url_Values \<Rightarrow> (string \<times> string) list" where
  "pairs_of v = concat (map (\<lambda>kvs. map (\<lambda>x. (fst kvs, x)) (snd kvs)) v)"

definition piece :: "string \<times> string \<Rightarrow> string" where
  "piece kx = QueryEscape (fst kx) @ ''='' @ QueryEscape (snd kx)"

definition add_value :: "url_Values \<Rightarrow> string \<times> string \<Rightarrow> url_Values" where
  "add_value m kx = AList.update (fst kx) (Values_Get m (fst kx) @ [snd kx]) m"

section \<open>Concrete inputs\<close>

definition entry :: "int \<Rightarrow> string \<Rightarrow> Entry" where
  "entry t l = \<lparr>Timestamp = t, Line = l, StructuredMetadata = [], Parsed = []\<rparr>"

definition stats_of :: "int \<Rightarrow> int \<Rightarrow> int \<Rightarrow> stats_Result" where
  "stats_of b l q = \<lparr>BytesProcessed = b, LinesProcessed = l, QueueTime = q\<rparr>"

definition loki_response ::
  "string \<Rightarrow> Stream list \<Rightarrow> 32 word \<Rightarrow> Direction \<Rightarrow> stats_Result \<Rightarrow>
   PrometheusResponseHeader list \<Rightarrow> LokiResponse" where
  "loki_response st ss l d stats hs =
     \<lparr>Status = st, Data = \<lparr>ResultType = ''streams'', Result = ss\<rparr>, ErrorType = [],
      Error = [], Direction = d, Limit = l, Version = 1, Statistics = stats, Headers = hs\<rparr>"

definition series_response ::
  "SeriesIdentifier list \<Rightarrow> stats_Result \<Rightarrow> PrometheusResponseHeader list \<Rightarrow> LokiSeriesResponse" where
  "series_response xs stats hs =
     \<lparr>Series_Status = ''success'', Series_Data = xs, Series_Version = 1,
      Series_Headers = hs, Series_Statistics = stats\<rparr>"

definition env_prod :: SeriesIdentifier where
  "env_prod = [''env'' \<mapsto> ''prod'']"

definition env_dev :: SeriesIdentifier where
  "env_dev = [''env'' \<mapsto> ''dev'']"

text \<open>An instance of the merger's collaborators for the concrete inputs: a hash that tells
  apart the series above (it reads the value of the label \<open>env\<close>), and combiners that hand
  back their first input.\<close>

definition example_collaborators :: collaborators where
  "example_collaborators =
     \<lparr>series_Hash = (\<lambda>s. case s ''env'' of None \<Rightarrow> 0 | Some v \<Rightarrow> 1 + of_nat (length v)),
      PrometheusCodec_MergeResponse =
        (\<lambda>ps. case ps of [] \<Rightarrow> Inl (PlainError ''no responses'') | p # _ \<Rightarrow> Inr p),
      indexStats_MergeStats =
        (\<lambda>ss. case ss of Some s # _ \<Rightarrow> s
               | _ \<Rightarrow> \<lparr>Stats_Streams = 0, Stats_Chunks = 0, Stats_Bytes = 0, Stats_Entries = 0\<rparr>),
      seriesvolume_Merge =
        (\<lambda>vs l. case vs of [] \<Rightarrow> Some \<lparr>Volumes = [], Volume_Limit = l\<rparr> | v # _ \<Rightarrow> v)\<rparr>"

text \<open>An instance of the codec's collaborators for the concrete inputs: the route table,
  the form and the parsers of the previous section; requests are built by cutting the URL at
  the question mark; the messages hold no formatting verb and are kept as they are; the
  context holds no header values and no query limits; a whole number of milliseconds is
  printed exactly.\<close>

definition example_deps :: codec_deps where
  "example_deps =
     \<lparr>getOperation = route_table,
      ParseForm = http_ParseForm,
      http_NewRequest = (\<lambda>m url body.
         Inr \<lparr>Method = m, URL_Path = takeWhile (\<lambda>c. c \<noteq> CHR ''?'') url,
              RawQuery = drop 1 (dropWhile (\<lambda>c. c \<noteq> CHR ''?'') url),
              RequestURI = [], ContentLength = 0, Header = [], Body = body\<rparr>),
      Errorf_message = (\<lambda>msg. msg),
      ParseRangeQuery = loghttp_ParseRangeQuery,
      ParseInstantQuery = loghttp_ParseInstantQuery,
      ParseAndValidateSeriesQuery = loghttp_ParseAndValidateSeriesQuery,
      ParseLabelQuery = loghttp_ParseLabelQuery,
      ParseIndexStatsQuery = loghttp_ParseIndexStatsQuery,
      ParseVolumeInstantQuery = loghttp_ParseVolumeInstantQuery,
      ParseVolumeRangeQuery = loghttp_ParseVolumeRangeQuery,
      RoundToMilliseconds = util_RoundToMilliseconds,
      labelNamesRoutes_FindSubmatch = (\<lambda>p. []),
      ExtractOrgIDFromHTTPRequest = (\<lambda>r.
         case map_of (Header r) ''X-Scope-OrgID'' of
           Some (v # _) \<Rightarrow> Inr v
         | _ \<Rightarrow> Inl (PlainError ''no org id'')),
      ExtractQueryTagsFromHTTP = (\<lambda>r. []),
      QueryQueueTimeHeader = (\<lambda>r. []),
      ParseDuration = (\<lambda>s. None),
      ExtractEncodingFlagsFromProto = (\<lambda>r. None),
      Values_Encode = Encode,
      URL_String = (\<lambda>p q. if q = [] then p else p @ ''?'' @ q),
      Seconds_rounded = (\<lambda>ms. ms * 1000),
      ExtractHeader = (\<lambda>ctx name. []),
      InjectQueryLimitsHeader = (\<lambda>ctx h. Inr h),
      QueryTagsHTTPHeader = ''X-Query-Tags'',
      LokiEncodingFlagsHeader = ''X-Loki-Response-Encoding-Flags'',
      LokiActorPathHeader = ''X-Loki-Actor-Path'',
      OrgIDHeaderName = ''X-Scope-OrgID''\<rparr>"

definition get_request :: "string \<Rightarrow> string \<Rightarrow> http_Request" where
  "get_request p q =
     \<lparr>Method = ''GET'', URL_Path = p, RawQuery = q, RequestURI = [], ContentLength = 0,
      Header = [], Body = []\<rparr>"

definition tenant_context :: req_context where
  "tenant_context =
     \<lparr>ctx_OrgID = Some ''tenant'', ctx_QueryTags = None, ctx_QueueTime = None,
      ctx_EncodingFlags = None\<rparr>"

text \<open>A range request and the request that the encoder makes of it.\<close>

definition range_request :: LokiRequest where
  "range_request =
     \<lparr>Req_Query = ''{app=1}'', Req_Limit = 100, Req_Step = 0, Req_Interval = 0,
      Req_StartTs = 1700000000000000000, Req_EndTs = 1700003600000000000,
      Req_Direction = BACKWARD, Req_Path = ''/loki/api/v1/query_range'',
      Req_Shards = [''0_of_2'', ''1_of_2'']\<rparr>"

definition encoded_range_request :: http_Request where
  "encoded_range_request =
     \<lparr>Method = ''GET'', URL_Path = ''/loki/api/v1/query_range'',
      RawQuery = ''direction=BACKWARD&end=1700003600000000000&limit=100&query=%7Bapp%3D1%7D&shards=0_of_2&shards=1_of_2&start=1700000000000000000'',
      RequestURI = ''/loki/api/v1/query_range?direction=BACKWARD&end=1700003600000000000&limit=100&query=%7Bapp%3D1%7D&shards=0_of_2&shards=1_of_2&start=1700000000000000000'',
      ContentLength = 0, Header = [(''X-Scope-OrgID'', [''tenant''])], Body = []\<rparr>"

text \<open>A label request whose path is no label route, and the request that the encoder makes
  of it.\<close>

definition foo_label_request :: LabelRequest where
  "foo_label_request =
     \<lparr>path = ''/foo'',
      LabelRequest = \<lparr>Lbl_Name = [], Lbl_Values = False, Lbl_Start = Some 1,
                      Lbl_End = Some 2, Lbl_Query = []\<rparr>\<rparr>"

definition encoded_foo_label_request :: http_Request where
  "encoded_foo_label_request =
     \<lparr>Method = ''GET'', URL_Path = ''/foo'', RawQuery = ''end=2&query=&start=1'',
      RequestURI = ''/foo?end=2&query=&start=1'', ContentLength = 0,
      Header = [(''X-Scope-OrgID'', [''tenant''])], Body = []\<rparr>"

text \<open>The zero \<open>time.Time\<close> (1 January of the year 1, 00:00:00 UTC), 62135596800 seconds
  before the epoch; an instant request at the zero time, as a request has it whose time was
  never set; and the request that the encoder makes of it.\<close>

definition zero_Time :: int where
  "zero_Time = - 62135596800000000000"

definition zero_time_request :: LokiInstantRequest where
  "zero_time_request =
     \<lparr>Inst_Query = ''up'', Inst_Limit = 100, Inst_TimeTs = zero_Time,
      Inst_Direction = FORWARD, Inst_Path = ''/loki/api/v1/query'', Inst_Shards = []\<rparr>"

definition encoded_zero_time_request :: http_Request where
  "encoded_zero_time_request =
     \<lparr>Method = ''GET'', URL_Path = ''/loki/api/v1/query'',
      RawQuery = ''direction=FORWARD&limit=100&query=up&time=-6795364578871345152'',
      RequestURI = ''/loki/api/v1/query?direction=FORWARD&limit=100&query=up&time=-6795364578871345152'',
      ContentLength = 0, Header = [(''X-Scope-OrgID'', [''tenant''])], Body = []\<rparr>"

section \<open>Merging nothing\<close>

text \<open>
  C9. Merging an empty list of responses fails with an error (the check
  \<open>len(responses) == 0\<close> comes before the dispatch on the kind, so it holds whatever kind the
  caller had in mind and whatever the collaborators do); no response is produced.
\<close>

theorem MergeResponse_empty_fails:
  "MergeResponse C [] = Inl (PlainError ''merging responses requires at least one response'')
   \<and> (\<nexists>r. MergeResponse C [] = Inr r)"
  by simp

lemma count_entries_simps [simp]:
  "count_entries [] = 0"
  "count_entries (s # ss) = length (Entries s) + count_entries ss"
  "count_entries (ss @ ts) = count_entries ss + count_entries ts"
  by (simp_all add: count_entries_def)

lemma chunks_of_simps [simp]:
  "chunks_of k [] = []"
  "chunks_of k (ss @ ts) = chunks_of k ss @ chunks_of k ts"
  "chunks_of k (s # ss) = (if Labels s = k then Entries s # chunks_of k ss else chunks_of k ss)"
  by (simp_all add: chunks_of_def)

lemma chunks_of_empty: "k \<notin> Labels ` set ss \<Longrightarrow> chunks_of k ss = []"
  by (induction ss) auto

lemma groups_of_Nil [simp]: "groups_of d [] = Map.empty"
  by (rule ext) (simp add: groups_of_def)

lemma add_stream_inv:
  assumes "distinct (map fst g)" and "map_of g = groups_of d ss"
  shows "distinct (map fst (fst (add_stream d s (g, t))))
       \<and> map_of (fst (add_stream d s (g, t))) = groups_of d (ss @ [s])
       \<and> snd (add_stream d s (g, t)) = t + length (Entries s)"
proof -
  have m: "map_of (fst (add_stream d s (g, t))) k = groups_of d (ss @ [s]) k" for k
    using assms(2)
    by (auto simp: add_stream_def Let_def update_conv' groups_of_def chunks_of_empty
             split: option.splits if_splits)
  show ?thesis
    using assms(1) m by (auto simp: add_stream_def Let_def distinct_update)
qed

lemma fold_add_stream_inv:
  assumes "distinct (map fst g)" and "map_of g = groups_of d ss"
  shows "distinct (map fst (fst (fold (add_stream d) ts (g, t))))
       \<and> map_of (fst (fold (add_stream d) ts (g, t))) = groups_of d (ss @ ts)
       \<and> snd (fold (add_stream d) ts (g, t)) = t + count_entries ts"
  using assms
proof (induction ts arbitrary: g t ss)
  case Nil
  then show ?case by simp
next
  case (Cons a ts)
  obtain g' t' where a: "add_stream d a (g, t) = (g', t')" by (cases "add_stream d a (g, t)")
  from add_stream_inv[OF Cons.prems, of a t] a
  have 1: "distinct (map fst g')" "map_of g' = groups_of d (ss @ [a])" "t' = t + length (Entries a)"
    by auto
  from Cons.IH[OF 1(1) 1(2), of t'] a 1(3) show ?case by simp
qed

lemma group_responses_inv:
  assumes "distinct (map fst g)" and "map_of g = groups_of d ss"
  shows "distinct (map fst (fst (group_responses resps limit d (g, t))))
       \<and> map_of (fst (group_responses resps limit d (g, t))) = groups_of d (ss @ consumed resps limit t)
       \<and> snd (group_responses resps limit d (g, t)) = t + count_entries (consumed resps limit t)"
  using assms
proof (induction resps arbitrary: g t ss)
  case Nil
  then show ?case by simp
next
  case (Cons r resps)
  obtain g' t' where a: "fold (add_stream d) (Result (Data r)) (g, t) = (g', t')"
    by (cases "fold (add_stream d) (Result (Data r)) (g, t)")
  from fold_add_stream_inv[OF Cons.prems, of "Result (Data r)" t] a
  have 1: "distinct (map fst g')" "map_of g' = groups_of d (ss @ Result (Data r))"
    "t' = t + count_entries (Result (Data r))"
    by auto
  show ?case
  proof (cases "limit \<le> t'")
    case True
    then show ?thesis using a 1 by simp
  next
    case False
    then show ?thesis using a 1 Cons.IH[OF 1(1) 1(2), of t'] by simp
  qed
qed

lemma consumed_all:
  "limit \<le> t + count_entries (consumed resps limit t) \<or> consumed resps limit t = all_streams resps"
proof (induction resps arbitrary: t)
  case Nil
  then show ?case by (simp add: all_streams_def)
next
  case (Cons a resps)
  from Cons.IH[of "t + count_entries (Result (Data a))"]
  show ?case by (auto simp: all_streams_def add.assoc)
qed

lemma consumed_le:
  "count_entries (consumed resps limit t) \<le> count_entries (all_streams resps)"
  by (induction resps arbitrary: t) (auto simp: all_streams_def)

lemma length_byDir_merge: "length (byDir_merge a) = sum_list (map length (markers a))"
proof -
  have "sum_list (map length (sort_key f xs)) = sum_list (map length xs)" for f :: "Entry list \<Rightarrow> int" and xs
  proof -
    have "mset (map length (sort_key f xs)) = mset (map length xs)" by simp
    then show ?thesis by (metis sum_mset_sum_list)
  qed
  moreover have "sum_list (map length (filter (\<lambda>m. m \<noteq> []) xs)) = sum_list (map length xs)" for xs :: "Entry list list"
    by (induction xs) auto
  ultimately show ?thesis by (simp add: byDir_merge_def length_concat)
qed

lemma sum_chunks_of: "sum_list (map length (chunks_of k ss)) = count_entries (filter (\<lambda>s. Labels s = k) ss)"
  by (induction ss) auto

lemma sum_if_key:
  "distinct ks \<Longrightarrow> sum_list (map (\<lambda>k. if k0 = k then n else 0) ks) = (if k0 \<in> set ks then n else (0::nat))"
  by (induction ks) auto

lemma count_by_keys:
  "distinct ks \<Longrightarrow> Labels ` set ss \<subseteq> set ks \<Longrightarrow>
   sum_list (map (\<lambda>k. count_entries (filter (\<lambda>s. Labels s = k) ss)) ks) = count_entries ss"
proof (induction ss)
  case Nil
  then show ?case by simp
next
  case (Cons s ss)
  have "sum_list (map (\<lambda>k. count_entries (filter (\<lambda>s. Labels s = k) (s # ss))) ks)
      = sum_list (map (\<lambda>k. (if Labels s = k then length (Entries s) else 0)
                            + count_entries (filter (\<lambda>s. Labels s = k) ss)) ks)"
    by (rule arg_cong[where f = sum_list], rule map_cong) auto
  also have "\<dots> = sum_list (map (\<lambda>k. if Labels s = k then length (Entries s) else 0) ks)
                 + sum_list (map (\<lambda>k. count_entries (filter (\<lambda>s. Labels s = k) ss)) ks)"
    by (simp add: sum_list_addf)
  also have "\<dots> = length (Entries s) + count_entries ss"
    using Cons by (simp add: sum_if_key)
  finally show ?case by simp
qed

lemma pq_next_mem: "pq_next d best ss \<in> set (best # ss)"
  by (induction ss arbitrary: best) auto

lemma count_entries_remove1:
  "s \<in> set pq \<Longrightarrow> count_entries (remove1 s pq) + length (Entries s) = count_entries pq"
  by (induction pq) auto

lemma pq_pop_props:
  assumes "pq \<noteq> []" and "\<forall>s\<in>set pq. Entries s \<noteq> []" and "pq_pop d pq = (next, pq')"
  shows "Labels next \<in> Labels ` set pq"
    and "length (Entries next) = 1"
    and "count_entries pq' + 1 = count_entries pq"
    and "\<forall>s\<in>set pq'. Entries s \<noteq> []"
    and "Labels ` set pq' \<subseteq> Labels ` set pq"
proof -
  obtain s0 ss where pq: "pq = s0 # ss" using assms(1) by (cases pq) auto
  define s where "s = pq_next d s0 ss"
  have mem: "s \<in> set pq" unfolding s_def pq by (rule pq_next_mem)
  then have ne: "Entries s \<noteq> []" using assms(2) by blast
  have "pq_pop d pq = (\<lparr>Labels = Labels s, Entries = take 1 (Entries s)\<rparr>,
            if length (Entries s) > 1 then remove1 s pq @ [s\<lparr>Entries := tl (Entries s)\<rparr>]
            else remove1 s pq)"
    unfolding pq s_def by (simp only: pq_pop.simps Let_def)
  with assms(3)
  have nxt: "next = \<lparr>Labels = Labels s, Entries = take 1 (Entries s)\<rparr>"
    and rest: "pq' = (if length (Entries s) > 1 then remove1 s pq @ [s\<lparr>Entries := tl (Entries s)\<rparr>]
                      else remove1 s pq)"
    by simp_all
  show "Labels next \<in> Labels ` set pq" using mem nxt by simp
  show "length (Entries next) = 1" using ne nxt by (cases "Entries s") auto
  have sub: "set (remove1 s pq) \<subseteq> set pq" by (rule set_remove1_subset)
  show "count_entries pq' + 1 = count_entries pq"
    using count_entries_remove1[OF mem] ne rest by (cases "Entries s") auto
  show "\<forall>s\<in>set pq'. Entries s \<noteq> []"
  proof (cases "length (Entries s) > 1")
    case True
    then have "tl (Entries s) \<noteq> []" by (cases "Entries s") auto
    moreover have "pq' = remove1 s pq @ [s\<lparr>Entries := tl (Entries s)\<rparr>]" using rest True by simp
    ultimately show ?thesis using assms(2) sub by auto
  next
    case False
    then have "pq' = remove1 s pq" using rest by simp
    then show ?thesis using assms(2) sub by auto
  qed
  show "Labels ` set pq' \<subseteq> Labels ` set pq"
    using sub mem rest by (auto split: if_splits)
qed

lemma count_update:
  "distinct (map fst rd) \<Longrightarrow>
   count_entries (map snd (AList.update k v rd))
     + (case map_of rd k of None \<Rightarrow> 0 | Some s \<Rightarrow> length (Entries s))
   = count_entries (map snd rd) + length (Entries v)"
  by (induction rd) (auto split: option.splits)

lemma append_result_props:
  assumes "rd_ok rd"
  shows "rd_ok (append_result next rd)"
    and "fst ` set (append_result next rd) = insert (Labels next) (fst ` set rd)"
    and "count_entries (map snd (append_result next rd))
           = count_entries (map snd rd) + length (Entries next)"
proof -
  have d: "distinct (map fst rd)" and l: "\<And>k s. map_of rd k = Some s \<Longrightarrow> Labels s = k"
    using assms by (auto simp: rd_ok_def)
  show "fst ` set (append_result next rd) = insert (Labels next) (fst ` set rd)"
    by (simp add: append_result_def Let_def dom_update)
  show "count_entries (map snd (append_result next rd))
           = count_entries (map snd rd) + length (Entries next)"
  proof (cases "map_of rd (Labels next)")
    case None
    then show ?thesis
      using count_update[OF d, where k = "Labels next"
          and v = "\<lparr>Labels = Labels next, Entries = Entries next\<rparr>"]
      by (simp add: append_result_def)
  next
    case (Some a)
    then show ?thesis
      using count_update[OF d, where k = "Labels next"
          and v = "a\<lparr>Entries := Entries a @ Entries next\<rparr>"]
      by (simp add: append_result_def)
  qed
  define v where "v = (case map_of rd (Labels next) of
                 None \<Rightarrow> \<lparr>Labels = Labels next, Entries = []\<rparr>
               | Some s \<Rightarrow> s)\<lparr>Entries := Entries (case map_of rd (Labels next) of
                 None \<Rightarrow> \<lparr>Labels = Labels next, Entries = []\<rparr>
               | Some s \<Rightarrow> s) @ Entries next\<rparr>"
  have ar: "append_result next rd = AList.update (Labels next) v rd"
    unfolding append_result_def v_def Let_def ..
  have lv: "Labels v = Labels next"
  proof (cases "map_of rd (Labels next)")
    case None
    then show ?thesis by (simp add: v_def)
  next
    case (Some a)
    then show ?thesis using l[OF Some] by (simp add: v_def)
  qed
  have "Labels s = k" if "map_of (append_result next rd) k = Some s" for k s
  proof (cases "k = Labels next")
    case True
    then have "s = v" using that unfolding ar by (simp add: update_conv')
    then show ?thesis using lv True by simp
  next
    case False
    then have "map_of rd k = Some s" using that unfolding ar by (simp add: update_conv')
    then show ?thesis by (rule l)
  qed
  moreover have "distinct (map fst (append_result next rd))"
    unfolding ar using d by (rule distinct_update)
  ultimately show "rd_ok (append_result next rd)"
    unfolding rd_ok_def by blast
qed

lemma pop_loop_props:
  assumes "\<forall>s\<in>set pq. Entries s \<noteq> []" and "rd_ok rd"
    and "fst ` set rd \<subseteq> K" and "Labels ` set pq \<subseteq> K"
  shows "rd_ok (pop_loop n d pq rd)
       \<and> fst ` set (pop_loop n d pq rd) \<subseteq> K
       \<and> count_entries (map snd (pop_loop n d pq rd))
           = count_entries (map snd rd) + min n (count_entries pq)"
  using assms
proof (induction n arbitrary: pq rd)
  case 0
  then show ?case by simp
next
  case (Suc n)
  show ?case
  proof (cases "pq = []")
    case True
    then show ?thesis using Suc.prems by simp
  next
    case False
    obtain nxt pq' where p: "pq_pop d pq = (nxt, pq')" by (cases "pq_pop d pq")
    note pp = pq_pop_props[OF False Suc.prems(1) p]
    note ar = append_result_props[OF Suc.prems(2), of nxt]
    have k: "fst ` set (append_result nxt rd) \<subseteq> K"
      using ar(2) pp(1) Suc.prems(3,4) by auto
    have k': "Labels ` set pq' \<subseteq> K" using pp(5) Suc.prems(4) by blast
    from Suc.IH[OF pp(4) ar(1) k k']
    show ?thesis using False p ar(3) pp(2,3) by auto
  qed
qed

lemma map_filter_map_of:
  assumes "distinct (map fst rd)" and "distinct keys"
  shows "mset (List.map_filter (map_of rd) keys) = mset (map snd (filter (\<lambda>p. fst p \<in> set keys) rd))"
  using assms(2)
proof (induction keys)
  case Nil
  then show ?case by (simp add: List.map_filter_simps)
next
  case (Cons k ks)
  have split: "mset (filter (\<lambda>p. fst p \<in> set (k # ks)) rd)
      = mset (filter (\<lambda>p. fst p = k) rd) + mset (filter (\<lambda>p. fst p \<in> set ks) rd)"
    using Cons.prems by (induction rd) auto
  have one: "map snd (filter (\<lambda>p. fst p = k) rd) = (case map_of rd k of None \<Rightarrow> [] | Some v \<Rightarrow> [v])"
  proof -
    have e: "k \<notin> fst ` set xs \<Longrightarrow> filter (\<lambda>p. fst p = k) xs = []" for xs
      by (induction xs) auto
    show ?thesis using assms(1) by (induction rd) (auto simp: e)
  qed
  have "mset (map snd (filter (\<lambda>p. fst p \<in> set (k # ks)) rd))
      = mset (map snd (filter (\<lambda>p. fst p = k) rd)) + mset (map snd (filter (\<lambda>p. fst p \<in> set ks) rd))"
    using arg_cong[OF split, of "image_mset snd"] by simp
  then show ?case using Cons one by (auto simp: List.map_filter_simps split: option.splits)
qed

lemma count_entries_mset: "mset xs = mset ys \<Longrightarrow> count_entries xs = count_entries ys"
proof -
  assume "mset xs = mset ys"
  then have "mset (map (\<lambda>s. length (Entries s)) xs) = mset (map (\<lambda>s. length (Entries s)) ys)"
    by simp
  then have "sum_mset (mset (map (\<lambda>s. length (Entries s)) xs))
           = sum_mset (mset (map (\<lambda>s. length (Entries s)) ys))" by (rule arg_cong)
  then show ?thesis unfolding count_entries_def by (simp only: sum_mset_sum_list)
qed

lemma count_map_filter:
  assumes "distinct (map fst rd)" and "distinct keys" and "fst ` set rd \<subseteq> set keys"
  shows "count_entries (List.map_filter (map_of rd) keys) = count_entries (map snd rd)"
proof -
  have "filter (\<lambda>p. fst p \<in> set keys) rd = rd" using assms(3) by (auto simp: filter_id_conv)
  then have "mset (List.map_filter (map_of rd) keys) = mset (map snd rd)"
    using map_filter_map_of[OF assms(1,2)] by simp
  then show ?thesis by (rule count_entries_mset)
qed

lemma labels_map_filter:
  assumes "rd_ok rd"
  shows "map Labels (List.map_filter (map_of rd) keys) = filter (\<lambda>k. map_of rd k \<noteq> None) keys"
  using assms by (induction keys) (auto simp: List.map_filter_simps rd_ok_def split: option.splits)

lemma mergeOrdered_tail:
  "mergeOrderedNonOverlappingStreams resps limit d =
     merge_tail d (unat limit)
       (sorted_keys d (fst (group_responses resps (unat limit) d ([], 0))))
       (merged_stream (fst (group_responses resps (unat limit) d ([], 0))))
       (snd (group_responses resps (unat limit) d ([], 0)))"
  by (simp add: mergeOrderedNonOverlappingStreams_def merge_tail_def Let_def split: prod.splits)

lemma final_state:
  "distinct (map fst (fst (group_responses resps limit d ([], 0))))
   \<and> map_of (fst (group_responses resps limit d ([], 0))) = groups_of d (consumed resps limit 0)
   \<and> snd (group_responses resps limit d ([], 0)) = count_entries (consumed resps limit 0)"
  using group_responses_inv[of "[]" d "[]" resps limit 0] by simp

lemma keys_of_groups:
  assumes "map_of g = groups_of d ss"
  shows "fst ` set g = Labels ` set ss"
proof -
  have "fst ` set g = dom (map_of g)" by (simp add: dom_map_of_conv_image_fst)
  also have "\<dots> = Labels ` set ss" unfolding assms by (auto simp: groups_of_def dom_def)
  finally show ?thesis .
qed

lemma sorted_keys_props:
  assumes "distinct (map fst g)"
  shows "distinct (sorted_keys d g)" and "set (sorted_keys d g) = fst ` set g"
    and "sorted_wrt (key_order d) (sorted_keys d g)"
proof -
  show "distinct (sorted_keys d g)" using assms by (simp add: sorted_keys_def)
  show "set (sorted_keys d g) = fst ` set g" by (simp add: sorted_keys_def)
  have s: "sorted_wrt (<) (sort (map fst g))"
    using assms by (simp add: strict_sorted_iff)
  show "sorted_wrt (key_order d) (sorted_keys d g)"
  proof (cases "d = BACKWARD")
    case True
    have "key_order d = (\<lambda>a b. b < a)" using True by (intro ext) (simp add: key_order_def)
    then show ?thesis using s True by (simp add: sorted_keys_def sorted_wrt_rev)
  next
    case False
    have "key_order d = (<)" using False by (intro ext) (simp add: key_order_def)
    then show ?thesis using s False by (simp add: sorted_keys_def)
  qed
qed

lemma merged_stream_props:
  assumes "map_of g = groups_of d ss"
  shows "Labels (merged_stream g k) = k"
    and "length (Entries (merged_stream g k)) = count_entries (filter (\<lambda>s. Labels s = k) ss)"
proof -
  show "Labels (merged_stream g k) = k" by (simp add: merged_stream_def)
  show "length (Entries (merged_stream g k)) = count_entries (filter (\<lambda>s. Labels s = k) ss)"
  proof (cases "k \<in> Labels ` set ss")
    case True
    then show ?thesis
      by (simp add: merged_stream_def assms groups_of_def length_byDir_merge sum_chunks_of)
  next
    case False
    then have "filter (\<lambda>s. Labels s = k) ss = []" by (auto simp: filter_empty_conv)
    then show ?thesis using False by (simp add: merged_stream_def assms groups_of_def)
  qed
qed

lemma count_merged:
  assumes "map_of g = groups_of d ss" and "distinct keys" and "set keys = Labels ` set ss"
  shows "count_entries (map (merged_stream g) keys) = count_entries ss"
proof -
  have "count_entries (map (merged_stream g) keys)
      = sum_list (map (\<lambda>k. count_entries (filter (\<lambda>s. Labels s = k) ss)) keys)"
    by (simp add: count_entries_def comp_def merged_stream_props(2)[OF assms(1)])
  also have "\<dots> = count_entries ss"
    using assms(2,3) by (intro count_by_keys) auto
  finally show ?thesis .
qed

lemma count_filter_nonempty:
  "count_entries (filter (\<lambda>s. length (Entries s) > 0) xs) = count_entries xs"
  by (induction xs) auto

lemma merge_tail_count:
  assumes "map_of g = groups_of d ss" and "distinct keys" and "set keys = Labels ` set ss"
  shows "count_entries (merge_tail d limit keys (merged_stream g) (count_entries ss))
         = min limit (count_entries ss)"
proof (cases "count_entries ss \<le> limit")
  case True
  then show ?thesis using count_merged[OF assms] by (simp add: merge_tail_def)
next
  case False
  define pq where "pq = filter (\<lambda>s. length (Entries s) > 0) (map (merged_stream g) keys)"
  have ne: "\<forall>s\<in>set pq. Entries s \<noteq> []" by (auto simp: pq_def)
  have lab: "Labels ` set pq \<subseteq> set keys"
    by (auto simp: pq_def merged_stream_props(1)[OF assms(1)])
  have cnt: "count_entries pq = count_entries ss"
    unfolding pq_def
    using count_filter_nonempty[of "map (merged_stream g) keys"] count_merged[OF assms] by simp
  have ok0: "rd_ok []" by (simp add: rd_ok_def)
  from pop_loop_props[OF ne ok0 _ lab, of limit d]
  have rd: "rd_ok (pop_loop limit d pq [])" "fst ` set (pop_loop limit d pq []) \<subseteq> set keys"
    "count_entries (map snd (pop_loop limit d pq [])) = min limit (count_entries pq)"
    by simp_all
  have "count_entries (List.map_filter (map_of (pop_loop limit d pq [])) keys)
        = min limit (count_entries ss)"
    using count_map_filter[OF _ assms(2) rd(2)] rd(1,3) cnt by (simp add: rd_ok_def)
  then show ?thesis using False by (simp add: merge_tail_def pq_def)
qed

lemma merge_tail_sorted:
  assumes "map_of g = groups_of d ss" and "sorted_wrt R keys"
  shows "sorted_wrt R (map Labels (merge_tail d limit keys (merged_stream g) n_total))"
proof (cases "n_total \<le> limit")
  case True
  have "map Labels (map (merged_stream g) keys) = keys"
    by (simp add: comp_def merged_stream_props(1)[OF assms(1)])
  then show ?thesis using True assms(2) by (simp add: merge_tail_def)
next
  case False
  define pq where "pq = filter (\<lambda>s. length (Entries s) > 0) (map (merged_stream g) keys)"
  have ne: "\<forall>s\<in>set pq. Entries s \<noteq> []" by (auto simp: pq_def)
  have ok0: "rd_ok []" by (simp add: rd_ok_def)
  from pop_loop_props[OF ne ok0, of UNIV limit d]
  have rd: "rd_ok (pop_loop limit d pq [])" by simp
  show ?thesis
    using False labels_map_filter[OF rd, of keys] assms(2)
    by (simp add: merge_tail_def pq_def sorted_wrt_filter)
qed

lemma merge_count:
  "count_entries (mergeOrderedNonOverlappingStreams resps limit d)
     = min (unat limit) (count_entries (all_streams resps))"
proof -
  define g where "g = fst (group_responses resps (unat limit) d ([], 0))"
  define ss where "ss = consumed resps (unat limit) 0"
  have fs: "distinct (map fst g)" "map_of g = groups_of d ss"
    "snd (group_responses resps (unat limit) d ([], 0)) = count_entries ss"
    using final_state[of resps "unat limit" d] by (simp_all add: g_def ss_def)
  note sk = sorted_keys_props[OF fs(1), of d]
  have "set (sorted_keys d g) = Labels ` set ss"
    using sk(2) keys_of_groups[OF fs(2)] by simp
  from merge_tail_count[OF fs(2) sk(1) this, of "unat limit"]
  have "count_entries (mergeOrderedNonOverlappingStreams resps limit d)
        = min (unat limit) (count_entries ss)"
    by (simp add: mergeOrdered_tail fs(3) flip: g_def)
  moreover have "min (unat limit) (count_entries ss) = min (unat limit) (count_entries (all_streams resps))"
    using consumed_all[of "unat limit" 0 resps] consumed_le[of resps "unat limit" 0]
    by (auto simp: ss_def)
  ultimately show ?thesis by simp
qed

lemma merge_sorted:
  "sorted_wrt (key_order d) (map Labels (mergeOrderedNonOverlappingStreams resps limit d))"
proof -
  define g where "g = fst (group_responses resps (unat limit) d ([], 0))"
  have fs: "distinct (map fst g)" "map_of g = groups_of d (consumed resps (unat limit) 0)"
    using final_state[of resps "unat limit" d] by (simp_all add: g_def)
  show ?thesis
    unfolding mergeOrdered_tail
    using merge_tail_sorted[OF fs(2) sorted_keys_props(3)[OF fs(1)]] by (simp add: g_def)
qed

lemma Count_count_entries: "Count res = int (count_entries (Result (Data res)))"
proof -
  have "foldl (\<lambda>result s. result + int (length (Entries s))) a xs = a + int (count_entries xs)"
    for a xs
    by (induction xs arbitrary: a) auto
  then show ?thesis by (simp add: Count_def)
qed

lemma assert_all_LokiResp: "assert_all as_LokiResponse (map LokiResp xs) = Inr xs"
proof -
  have "those (map as_LokiResponse (map LokiResp xs)) = Some xs"
    by (induction xs) auto
  then show ?thesis by (simp add: assert_all_def)
qed

lemma mergeLokiResponse_typed:
  "mergeLokiResponse (map LokiResp (r # rs)) =
     Inr (Some
       \<lparr>Status = QueryStatusSuccess,
        Data = \<lparr>ResultType = ResultTypeStream,
                Result = mergeOrderedNonOverlappingStreams (r # rs) (Limit r) (Direction r)\<rparr>,
        ErrorType = ErrorType r,
        Error = Error r,
        Direction = Direction r,
        Limit = Limit r,
        Version = Version r,
        Statistics = merged_stats (map Statistics (r # rs)),
        Headers = []\<rparr>)"
  using assert_all_LokiResp[of "r # rs"] by (simp add: mergeLokiResponse_def)

lemma sum_Count: "sum_list (map Count rs) = int (count_entries (all_streams rs))"
  by (induction rs) (auto simp: Count_count_entries all_streams_def)

text \<open>
  C1. For every list of LokiResponses, either direction and every limit, the streams that
  the ordered merge returns hold at most \<open>limit\<close> entries in total, and exactly the
  minimum of the limit and the number of entries of all input responses. The same holds for
  the LokiResponse that \<open>mergeLokiResponse\<close> builds from a non-empty list, whose limit is
  the first response's; \<open>Count\<close> is the source's count of a response's entries.
\<close>

theorem limit_enforcement:
  "count_entries (mergeOrderedNonOverlappingStreams resps limit d) \<le> unat limit
   \<and> count_entries (mergeOrderedNonOverlappingStreams resps limit d)
       = min (unat limit) (count_entries (all_streams resps))
   \<and> (\<exists>m. mergeLokiResponse (map LokiResp (r # rs)) = Inr (Some m)
          \<and> Count m \<le> uint (Limit r)
          \<and> Count m = min (uint (Limit r)) (sum_list (map Count (r # rs))))"
proof -
  have a: "count_entries (mergeOrderedNonOverlappingStreams resps limit d)
       = min (unat limit) (count_entries (all_streams resps))" for resps limit d
    by (rule merge_count)
  define n where "n = unat (Limit r)"
  define c where "c = count_entries (all_streams (r # rs))"
  have u: "uint (Limit r) = int n" unfolding n_def by (rule uint_nat)
  have b: "int (min n c) = min (int n) (int c)" by (simp add: min_def)
  have "Count \<lparr>Status = QueryStatusSuccess,
        Data = \<lparr>ResultType = ResultTypeStream,
                Result = mergeOrderedNonOverlappingStreams (r # rs) (Limit r) (Direction r)\<rparr>,
        ErrorType = ErrorType r, Error = Error r, Direction = Direction r, Limit = Limit r,
        Version = Version r, Statistics = merged_stats (map Statistics (r # rs)),
        Headers = []\<rparr> = int (min n c)"
    unfolding Count_count_entries n_def c_def by (simp only: a LokiResponse.simps LokiData.simps)
  then have "\<exists>m. mergeLokiResponse (map LokiResp (r # rs)) = Inr (Some m)
          \<and> Count m \<le> uint (Limit r)
          \<and> Count m = min (uint (Limit r)) (sum_list (map Count (r # rs)))"
    unfolding mergeLokiResponse_typed sum_Count u b c_def[symmetric] by simp
  then show ?thesis using a[of resps limit d] by simp
qed

text \<open>
  C7. The streams of every merged output are ordered by their label-set key: strictly
  ascending for FORWARD, strictly descending for BACKWARD (no key occurs twice). The same
  holds for the streams of the LokiResponse built from a non-empty list, in the direction of
  its first response.
\<close>

theorem output_streams_ordered_by_key:
  "sorted_wrt (<) (map Labels (mergeOrderedNonOverlappingStreams resps limit FORWARD))
   \<and> sorted_wrt (>) (map Labels (mergeOrderedNonOverlappingStreams resps limit BACKWARD))
   \<and> (\<exists>m. mergeLokiResponse (map LokiResp (r # rs)) = Inr (Some m)
          \<and> sorted_wrt (key_order (Direction r)) (map Labels (Result (Data m))))"
proof -
  have f: "key_order FORWARD = (<)" by (intro ext) (simp add: key_order_def)
  have b: "key_order BACKWARD = (>)" by (intro ext) (simp add: key_order_def)
  show ?thesis
    unfolding mergeLokiResponse_typed
    using merge_sorted[of FORWARD resps limit] merge_sorted[of BACKWARD resps limit]
      merge_sorted[of "Direction r" "r # rs" "Limit r"]
    by (simp add: f b)
qed

text \<open>
  C10. For every non-empty list of LokiResponses the merged response has the status
  "success" whatever the statuses of the inputs, the direction, limit, version, error type
  and error of the first input, and an empty header list.
\<close>

theorem mergeLokiResponse_fixed_fields:
  "\<exists>m. mergeLokiResponse (map LokiResp (r # rs)) = Inr (Some m)
      \<and> Status m = ''success''
      \<and> Direction m = Direction r
      \<and> Limit m = Limit r
      \<and> Version m = Version r
      \<and> ErrorType m = ErrorType r
      \<and> Error m = Error r
      \<and> Headers m = []"
  unfolding mergeLokiResponse_typed by (simp add: QueryStatusSuccess_def)

lemma keep_first_append:
  "keep_first h S (xs @ ys) = keep_first h S xs @ keep_first h (S \<union> h ` set xs) ys"
  by (induction xs arbitrary: S) (auto simp: insert_absorb)

lemma unique_series_keep:
  "unique_series h xs (acc, S) = (acc @ keep_first h S xs, S \<union> h ` set xs)"
  by (induction xs arbitrary: acc S) (auto simp: Let_def)

lemma unique_names_keep:
  "unique_names xs (acc, S) = (acc @ keep_first (\<lambda>x. x) S xs, S \<union> set xs)"
  by (induction xs arbitrary: acc S) auto

lemma foldl_unique_series:
  "foldl (\<lambda>acc res. unique_series h (Series_Data res) acc) (acc, S) rs
     = (acc @ keep_first h S (concat (map Series_Data rs)),
        S \<union> h ` set (concat (map Series_Data rs)))"
proof (induction rs arbitrary: acc S)
  case Nil
  then show ?case by simp
next
  case (Cons r rs)
  show ?case
    by (simp add: unique_series_keep Cons.IH keep_first_append Un_assoc image_Un)
qed

lemma foldl_unique_names:
  "foldl (\<lambda>acc res. unique_names (Names_Data res) acc) (acc, S) rs
     = (acc @ keep_first (\<lambda>x. x) S (concat (map Names_Data rs)),
        S \<union> set (concat (map Names_Data rs)))"
proof (induction rs arbitrary: acc S)
  case Nil
  then show ?case by simp
next
  case (Cons r rs)
  show ?case
    using keep_first_append[of "\<lambda>x. x" S "Names_Data r" "concat (map Names_Data rs)"]
    by (simp add: unique_names_keep Cons.IH Un_assoc)
qed

lemma merge_series_keep:
  "merge_series h rs = keep_first h {} (concat (map Series_Data rs))"
  by (simp add: merge_series_def foldl_unique_series)

lemma merge_names_keep:
  "merge_names rs = keep_first (\<lambda>x. x) {} (concat (map Names_Data rs))"
  by (simp add: merge_names_def foldl_unique_names)

lemma keep_first_keys: "h ` set (keep_first h S xs) = h ` set xs - S"
  by (induction xs arbitrary: S) auto

lemma keep_first_distinct: "distinct (map h (keep_first h S xs))"
proof (induction xs arbitrary: S)
  case Nil
  then show ?case by simp
next
  case (Cons x xs)
  have "h x \<notin> h ` set (keep_first h (insert (h x) S) xs)"
    unfolding keep_first_keys by simp
  then show ?case using Cons by simp
qed

lemma keep_first_subseq: "subseq (keep_first h S xs) xs"
  by (induction xs arbitrary: S) auto

lemma keep_first_is_first:
  "x \<in> set (keep_first h S xs) \<Longrightarrow> find (\<lambda>y. h y = h x) xs = Some x"
proof (induction xs arbitrary: S)
  case Nil
  then show ?case by simp
next
  case (Cons y ys)
  show ?case
  proof (cases "h y \<in> S")
    case True
    then have x: "x \<in> set (keep_first h S ys)" using Cons.prems by simp
    then have "h x \<in> h ` set ys - S" using keep_first_keys[of h S ys] by blast
    then have "h y \<noteq> h x" using True by auto
    then show ?thesis using Cons.IH[OF x] by simp
  next
    case False
    show ?thesis
    proof (cases "x = y")
      case True
      then show ?thesis by simp
    next
      case ne: False
      then have x: "x \<in> set (keep_first h (insert (h y) S) ys)"
        using Cons.prems False by simp
      then have "h x \<in> h ` set ys - insert (h y) S"
        using keep_first_keys[of h "insert (h y) S" ys] by blast
      then have "h y \<noteq> h x" by auto
      then show ?thesis using Cons.IH[OF x] by simp
    qed
  qed
qed

lemma keep_first_id: "distinct (map h xs) \<Longrightarrow> h ` set xs \<inter> S = {} \<Longrightarrow> keep_first h S xs = xs"
proof (induction xs arbitrary: S)
  case Nil
  then show ?case by simp
next
  case (Cons x xs)
  have "h ` set xs \<inter> insert (h x) S = {}" using Cons.prems by auto
  then show ?case using Cons by auto
qed

lemma one_per_key:
  "distinct (map h xs) \<Longrightarrow> k \<in> h ` set xs \<Longrightarrow> length (filter (\<lambda>x. h x = k) xs) = 1"
proof (induction xs)
  case Nil
  then show ?case by simp
next
  case (Cons x xs)
  show ?case
  proof (cases "h x = k")
    case True
    then have "k \<notin> h ` set xs" using Cons.prems(1) by auto
    then have "filter (\<lambda>x. h x = k) xs = []" by (auto simp: filter_empty_conv)
    then show ?thesis using True by simp
  next
    case False
    then show ?thesis using Cons by auto
  qed
qed

lemma assert_all_SeriesResp: "assert_all as_LokiSeriesResponse (map SeriesResp xs) = Inr xs"
proof -
  have "those (map as_LokiSeriesResponse (map SeriesResp xs)) = Some xs"
    by (induction xs) auto
  then show ?thesis by (simp add: assert_all_def)
qed

lemma MergeResponse_series:
  "MergeResponse C (map SeriesResp (r # rs)) =
     Inr (SeriesResp
       \<lparr>Series_Status = Series_Status r,
        Series_Data = keep_first (series_Hash C) {} (concat (map Series_Data (r # rs))),
        Series_Version = Series_Version r,
        Series_Headers = [],
        Series_Statistics = merged_stats (map Series_Statistics (r # rs))\<rparr>)"
  using assert_all_SeriesResp[of "r # rs"] by (simp add: merge_series_keep)

text \<open>
  C6. For every non-empty list of SeriesResponses the merge succeeds, and its series, among
  all series of the inputs in the order in which they are read, are: one per hash (no two
  survivors share a hash, and every hash of an input series is the hash of a survivor), in
  the order of the inputs, and each survivor is the first input series with its hash. In
  particular a series that every response contains has exactly one survivor with its hash.
  The hash is whatever \<open>series.Hash\<close> computes.
\<close>

theorem series_merge_deduplicates:
  "\<exists>m. MergeResponse C (map SeriesResp (r # rs)) = Inr (SeriesResp m)
      \<and> distinct (map (series_Hash C) (Series_Data m))
      \<and> series_Hash C ` set (Series_Data m)
          = series_Hash C ` set (concat (map Series_Data (r # rs)))
      \<and> subseq (Series_Data m) (concat (map Series_Data (r # rs)))
      \<and> (\<forall>x\<in>set (Series_Data m).
            find (\<lambda>y. series_Hash C y = series_Hash C x) (concat (map Series_Data (r # rs)))
              = Some x)
      \<and> ((\<forall>r'\<in>set (r # rs). s \<in> set (Series_Data r'))
            \<longrightarrow> length (filter (\<lambda>x. series_Hash C x = series_Hash C s) (Series_Data m)) = 1)"
proof -
  define h where "h = series_Hash C"
  define inputs where "inputs = concat (map Series_Data (r # rs))"
  define out where "out = keep_first h {} inputs"
  have d: "distinct (map h out)" unfolding out_def by (rule keep_first_distinct)
  have k: "h ` set out = h ` set inputs" unfolding out_def by (simp add: keep_first_keys)
  have s: "subseq out inputs" unfolding out_def by (rule keep_first_subseq)
  have f: "\<forall>x\<in>set out. find (\<lambda>y. h y = h x) inputs = Some x"
    unfolding out_def by (intro ballI keep_first_is_first)
  have o: "length (filter (\<lambda>x. h x = h s) out) = 1" if "\<forall>r'\<in>set (r # rs). s \<in> set (Series_Data r')"
  proof -
    have "s \<in> set inputs" using that by (auto simp: inputs_def)
    then have "h s \<in> h ` set out" unfolding k by blast
    then show ?thesis using one_per_key[OF d] by blast
  qed
  show ?thesis
    unfolding MergeResponse_series
    using d k s f o by (simp add: h_def inputs_def out_def)
qed

theorem series_merge_deduplicates_witness:
  "env_prod \<in> set (Series_Data (series_response [env_prod] (stats_of 1 2 3) []))
   \<and> env_prod \<in> set (Series_Data (series_response [env_prod, env_dev] (stats_of 10 20 30) []))
   \<and> MergeResponse example_collaborators
        [SeriesResp (series_response [env_prod] (stats_of 1 2 3) []),
         SeriesResp (series_response [env_prod, env_dev] (stats_of 10 20 30) [])]
      = Inr (SeriesResp (series_response [env_prod, env_dev] (stats_of 11 22 33) []))
   \<and> length (filter (\<lambda>x. series_Hash example_collaborators x = series_Hash example_collaborators env_prod)
         [env_prod, env_dev]) = 1"
proof -
  have e: "MergeResponse example_collaborators
        [SeriesResp (series_response [env_prod] (stats_of 1 2 3) []),
         SeriesResp (series_response [env_prod, env_dev] (stats_of 10 20 30) [])]
      = Inr (SeriesResp (series_response [env_prod, env_dev] (stats_of 11 22 33) []))"
    by (simp add: assert_all_def merge_series_def merged_stats_def MergeSplit_def stats_zero_def
        series_response_def stats_of_def example_collaborators_def env_prod_def env_dev_def)
  have m: "env_prod \<in> set (Series_Data (series_response [env_prod] (stats_of 1 2 3) []))"
    "env_prod \<in> set (Series_Data (series_response [env_prod, env_dev] (stats_of 10 20 30) []))"
    by (simp_all add: series_response_def)
  from series_merge_deduplicates[of example_collaborators
      "series_response [env_prod] (stats_of 1 2 3) []"
      "[series_response [env_prod, env_dev] (stats_of 10 20 30) []]" env_prod]
  show ?thesis using e m by (auto simp: series_response_def)
qed

lemma MergeSplit_zero [simp]: "MergeSplit stats_zero x = x"
  by (simp add: MergeSplit_def stats_zero_def)

lemma stats_sum_Nil: "stats_sum [] = stats_zero"
  by (simp add: stats_sum_def stats_zero_def)

lemma foldl_MergeSplit: "foldl MergeSplit a ss = MergeSplit a (stats_sum ss)"
proof (induction ss arbitrary: a)
  case Nil
  then show ?case by (simp add: MergeSplit_def stats_sum_def)
next
  case (Cons s ss)
  show ?case by (simp add: Cons.IH) (simp add: MergeSplit_def stats_sum_def)
qed

lemma merged_stats_sum: "merged_stats ss = stats_sum ss"
  by (simp add: merged_stats_def foldl_MergeSplit)

lemma those_map_inv:
  assumes "\<And>r x. as r = Some x \<Longrightarrow> r = ctor x"
  shows "those (map as rs) = Some xs \<Longrightarrow> rs = map ctor xs"
proof (induction rs arbitrary: xs)
  case Nil
  then show ?case by simp
next
  case (Cons r rs)
  then show ?case using assms by (auto split: option.splits)
qed

lemma assert_all_inv:
  assumes "\<And>r x. as r = Some x \<Longrightarrow> r = ctor x" and "assert_all as rs = Inr xs"
  shows "rs = map ctor xs"
  using assms(2) those_map_inv[OF assms(1), where rs = rs and xs = xs]
  by (auto simp: assert_all_def split: option.splits)

lemma as_inv:
  "as_LokiPromResponse r = Some p \<Longrightarrow> r = PromResp p"
  "as_LokiResponse r = Some l \<Longrightarrow> r = LokiResp l"
  "as_LokiSeriesResponse r = Some s \<Longrightarrow> r = SeriesResp s"
  "as_LokiSeriesResponseView r = Some v \<Longrightarrow> r = SeriesViewResp v"
  "as_MergedSeriesResponseView r = Some mv \<Longrightarrow> r = MergedViewResp mv"
  "as_LokiLabelNamesResponse r = Some n \<Longrightarrow> r = LabelNamesResp n"
  "as_IndexStatsResponse r = Some i \<Longrightarrow> r = IndexStatsResp i"
  "as_VolumeResponse r = Some vr \<Longrightarrow> r = VolumeResp vr"
  by (cases r; simp)+

lemma those_stats:
  "those (map GetStatistics (map PromResp ps)) = Some (map Prom_Statistics ps)"
  "those (map GetStatistics (map LokiResp ls)) = Some (map Statistics ls)"
  "those (map GetStatistics (map SeriesResp ss)) = Some (map Series_Statistics ss)"
  "those (map GetStatistics (map LabelNamesResp ns)) = Some (map Names_Statistics ns)"
  by (induction ps, simp_all) (induction ls, simp_all, induction ss, simp_all, induction ns, simp_all)

lemma statistics_of_merge:
  assumes "MergeResponse C rs = Inr m"
  shows "GetStatistics m = map_option stats_sum (those (map GetStatistics rs))"
proof (cases "(C, rs)" rule: MergeResponse.cases)
  case (1 C')
  then show ?thesis using assms by simp
next
  case (2 C' r0 rest)
  then obtain xs where a: "assert_all as_LokiPromResponse rs = Inr xs"
    using assms by (auto split: sum.splits)
  have rs: "rs = map PromResp xs" by (rule assert_all_inv[OF as_inv(1) a])
  have st: "those (map GetStatistics rs) = Some (map Prom_Statistics xs)"
    unfolding rs by (rule those_stats)
  have "GetStatistics m = Some (stats_sum (map Prom_Statistics xs))"
    using assms 2 a
    by (auto simp: merged_stats_sum split: sum.splits list.splits option.splits if_splits)
  then show ?thesis by (simp add: st)
next
  case (3 C' r0 rest)
  then obtain xs where a: "assert_all as_LokiResponse rs = Inr xs"
    using assms by (auto simp: mergeLokiResponse_def split: sum.splits)
  have rs: "rs = map LokiResp xs" by (rule assert_all_inv[OF as_inv(2) a])
  have st: "those (map GetStatistics rs) = Some (map Statistics xs)"
    unfolding rs by (rule those_stats)
  have "GetStatistics m = Some (stats_sum (map Statistics xs))"
    using assms 3 a
    by (auto simp: mergeLokiResponse_def merged_stats_sum split: sum.splits list.splits option.splits if_splits)
  then show ?thesis by (simp add: st)
next
  case (4 C' r0 rest)
  then obtain xs where a: "assert_all as_LokiSeriesResponse rs = Inr xs"
    using assms by (auto split: sum.splits)
  have rs: "rs = map SeriesResp xs" by (rule assert_all_inv[OF as_inv(3) a])
  have st: "those (map GetStatistics rs) = Some (map Series_Statistics xs)"
    unfolding rs by (rule those_stats)
  have "GetStatistics m = Some (stats_sum (map Series_Statistics xs))"
    using assms 4 a
    by (auto simp: merged_stats_sum split: sum.splits list.splits option.splits if_splits)
  then show ?thesis by (simp add: st)
next
  case (5 C' r0 rest)
  then show ?thesis using assms by (auto split: sum.splits)
next
  case (6 C' r0 rest)
  then show ?thesis using assms by (auto split: sum.splits)
next
  case (7 C' r0 rest)
  then obtain xs where a: "assert_all as_LokiLabelNamesResponse rs = Inr xs"
    using assms by (auto split: sum.splits)
  have rs: "rs = map LabelNamesResp xs" by (rule assert_all_inv[OF as_inv(6) a])
  have st: "those (map GetStatistics rs) = Some (map Names_Statistics xs)"
    unfolding rs by (rule those_stats)
  have "GetStatistics m = Some (stats_sum (map Names_Statistics xs))"
    using assms 7 a
    by (auto simp: merged_stats_sum split: sum.splits list.splits option.splits if_splits)
  then show ?thesis by (simp add: st)
next
  case (8 C' r0 rest)
  then show ?thesis using assms by (auto split: sum.splits)
next
  case (9 C' r0 rest)
  then show ?thesis using assms by (auto split: sum.splits option.splits)
next
  case (10 C' t rest)
  then show ?thesis using assms by simp
qed

lemma strict_asc_unique:
  fixes xs ys :: "string list"
  assumes "sorted_wrt (<) xs" and "sorted_wrt (<) ys" and "set xs = set ys"
  shows "xs = ys"
  using assms by (intro sorted_distinct_set_unique) (simp_all add: strict_sorted_iff)

lemma key_order_unique:
  assumes "sorted_wrt (key_order d) xs" and "sorted_wrt (key_order d) ys" and "set xs = set ys"
  shows "xs = ys"
proof (cases "d = BACKWARD")
  case True
  have k: "key_order d = (\<lambda>a b. b < a)" using True by (intro ext) (simp add: key_order_def)
  have "sorted_wrt (<) (rev xs)" "sorted_wrt (<) (rev ys)"
    using assms(1,2) unfolding k by (simp_all add: sorted_wrt_rev)
  then have "rev xs = rev ys" using assms(3) by (intro strict_asc_unique) simp_all
  then show ?thesis by simp
next
  case False
  have k: "key_order d = (<)" using False by (intro ext) (simp add: key_order_def)
  show ?thesis using assms unfolding k by (rule strict_asc_unique)
qed

lemma key_order_distinct: "sorted_wrt (key_order d) xs \<Longrightarrow> distinct xs"
  by (induction xs) (auto simp: key_order_def split: if_splits)

lemma chunks_of_single:
  "distinct (map Labels ss) \<Longrightarrow> s \<in> set ss \<Longrightarrow> chunks_of (Labels s) ss = [Entries s]"
proof (induction ss)
  case Nil
  then show ?case by simp
next
  case (Cons a ss)
  show ?case
  proof (cases "s = a")
    case True
    then have "Labels a \<notin> Labels ` set ss" using Cons.prems(1) by simp
    then show ?thesis using True by (simp add: chunks_of_empty)
  next
    case False
    then have "s \<in> set ss" using Cons.prems(2) by simp
    moreover have "Labels a \<noteq> Labels s" using Cons.prems(1) calculation by auto
    ultimately show ?thesis using Cons by simp
  qed
qed

lemma byDir_merge_single:
  "byDir_merge \<lparr>markers = [es], direction = d, labels = k\<rparr> = es"
  by (simp add: byDir_merge_def)

lemma merge_single:
  assumes "sorted_wrt (key_order d) (map Labels (Result (Data r)))"
    and "count_entries (Result (Data r)) \<le> unat limit"
  shows "mergeOrderedNonOverlappingStreams [r] limit d = Result (Data r)"
proof -
  define ss where "ss = Result (Data r)"
  define g where "g = fst (group_responses [r] (unat limit) d ([], 0))"
  have c: "consumed [r] (unat limit) 0 = ss" by (simp add: ss_def)
  have fs: "distinct (map fst g)" "map_of g = groups_of d ss"
    "snd (group_responses [r] (unat limit) d ([], 0)) = count_entries ss"
    using final_state[of "[r]" "unat limit" d] unfolding c by (simp_all add: g_def)
  have dl: "distinct (map Labels ss)" using assms(1) unfolding ss_def by (rule key_order_distinct)
  note sk = sorted_keys_props[OF fs(1), of d]
  have "set (sorted_keys d g) = set (map Labels ss)"
    using sk(2) keys_of_groups[OF fs(2)] by simp
  then have keys: "sorted_keys d g = map Labels ss"
    using key_order_unique[OF sk(3)] assms(1) unfolding ss_def by blast
  have ms: "merged_stream g (Labels s) = s" if "s \<in> set ss" for s
    using that chunks_of_single[OF dl that]
    by (simp add: merged_stream_def fs(2) groups_of_def byDir_merge_single)
  have "map (merged_stream g) (map Labels ss) = ss"
    using ms by (simp add: map_idI)
  then show ?thesis
    unfolding mergeOrdered_tail fs(3) g_def[symmetric] keys
    using assms(2) by (simp add: merge_tail_def ss_def)
qed

lemma merged_stats_single: "merged_stats [s] = s"
  by (simp add: merged_stats_def)

lemma assert_all_LabelNamesResp: "assert_all as_LokiLabelNamesResponse (map LabelNamesResp xs) = Inr xs"
proof -
  have "those (map as_LokiLabelNamesResponse (map LabelNamesResp xs)) = Some xs"
    by (induction xs) auto
  then show ?thesis by (simp add: assert_all_def)
qed

lemma MergeResponse_names:
  "MergeResponse C (map LabelNamesResp (r # rs)) =
     Inr (LabelNamesResp
       \<lparr>Names_Status = Names_Status r,
        Names_Data = keep_first (\<lambda>x. x) {} (concat (map Names_Data (r # rs))),
        Names_Version = Names_Version r,
        Names_Headers = [],
        Names_Statistics = merged_stats (map Names_Statistics (r # rs))\<rparr>)"
  using assert_all_LabelNamesResp[of "r # rs"] by (simp add: merge_names_keep)

lemma single_loki:
  assumes "Status r = QueryStatusSuccess" and "ResultType (Data r) = ResultTypeStream"
    and "Headers r = []"
    and "sorted_wrt (key_order (Direction r)) (map Labels (Result (Data r)))"
    and "Count r \<le> uint (Limit r)"
  shows "MergeResponse C [LokiResp r] = Inr (LokiResp r)"
proof -
  have "count_entries (Result (Data r)) \<le> unat (Limit r)"
    using assms(5) unfolding Count_count_entries uint_nat by linarith
  from merge_single[OF assms(4) this]
  have "mergeLokiResponse (map LokiResp [r]) = Inr (Some r)"
    unfolding mergeLokiResponse_typed using assms(1,2,3)
    by (cases r, cases "Data r") (simp add: merged_stats_single)
  then show ?thesis by simp
qed

lemma single_series:
  assumes "Series_Headers r = []" and "distinct (map (series_Hash C) (Series_Data r))"
  shows "MergeResponse C [SeriesResp r] = Inr (SeriesResp r)"
proof -
  have k: "keep_first (series_Hash C) {} (Series_Data r) = Series_Data r"
    using assms(2) by (simp add: keep_first_id)
  have "\<lparr>Series_Status = Series_Status r,
        Series_Data = keep_first (series_Hash C) {} (concat (map Series_Data [r])),
        Series_Version = Series_Version r,
        Series_Headers = [],
        Series_Statistics = merged_stats (map Series_Statistics [r])\<rparr> = r"
    using assms(1) k by (cases r) (simp add: merged_stats_single)
  then show ?thesis using MergeResponse_series[of C r "[]"] by (simp only: list.map)
qed

lemma single_names:
  assumes "Names_Headers r = []" and "distinct (Names_Data r)"
  shows "MergeResponse C [LabelNamesResp r] = Inr (LabelNamesResp r)"
proof -
  have k: "keep_first (\<lambda>x. x) {} (Names_Data r) = Names_Data r"
    using assms(2) keep_first_id[of "\<lambda>x. x" "Names_Data r" "{}"] by simp
  have "\<lparr>Names_Status = Names_Status r,
        Names_Data = keep_first (\<lambda>x. x) {} (concat (map Names_Data [r])),
        Names_Version = Names_Version r,
        Names_Headers = [],
        Names_Statistics = merged_stats (map Names_Statistics [r])\<rparr> = r"
    using assms(1) k by (cases r) (simp add: merged_stats_single)
  then show ?thesis using MergeResponse_names[of C r "[]"] by (simp only: list.map)
qed

lemma single_index_stats:
  "Stats_Response r = Some x \<Longrightarrow> indexStats_MergeStats C [Some x] = x \<Longrightarrow>
   MergeResponse C [IndexStatsResp r] = Inr (IndexStatsResp r)"
  by (cases r) (simp add: assert_all_def)

lemma single_merged_view: "MergeResponse C [MergedViewResp v] = Inr (MergedViewResp v)"
  by (cases v) (simp add: assert_all_def)

lemma single_prom:
  "PrometheusCodec_MergeResponse C [Response r] = Inr (Response r) \<Longrightarrow>
   MergeResponse C [PromResp r] = Inr (PromResp r)"
  by (cases r) (simp add: assert_all_def merged_stats_single)

lemma single_volume:
  "Volume_Response r = Some y \<Longrightarrow> seriesvolume_Merge C [Some y] (Volume_Limit y) = Some y \<Longrightarrow>
   MergeResponse C [VolumeResp r] = Inr (VolumeResp r)"
  by (cases r) (simp add: assert_all_def)

lemma assert_all_PromResp: "assert_all as_LokiPromResponse (map PromResp xs) = Inr xs"
proof -
  have "those (map as_LokiPromResponse (map PromResp xs)) = Some xs"
    by (induction xs) auto
  then show ?thesis by (simp add: assert_all_def)
qed

lemma MergeResponse_prom:
  "MergeResponse C (map PromResp (p # ps)) =
     (case PrometheusCodec_MergeResponse C (map Response (p # ps)) of
        Inl e \<Rightarrow> Inl e
      | Inr q \<Rightarrow>
          Inr (PromResp \<lparr>Response = q,
                 Prom_Statistics = stats_sum (map Prom_Statistics (p # ps))\<rparr>))"
  using assert_all_PromResp[of "p # ps"]
  by (cases "PrometheusCodec_MergeResponse C (map Response (p # ps))")
     (simp_all add: merged_stats_sum)

text \<open>
  C8. A non-empty list of log responses, of series responses or of label-names responses is
  merged, and the statistics record of the merged response is the field-wise sum of the
  statistics records of the inputs. A non-empty list of Prometheus responses is merged
  exactly when the sample-stream combiner that the merge delegates to merges their
  payloads, and then the statistics record of the result is the field-wise sum as well;
  when the combiner fails, the merge fails with the combiner's error. More generally,
  whenever a merge succeeds, the statistics record of the merged response is the sum of
  those of the inputs: a successful merge has inputs of one kind, and for the kinds that
  carry no statistics record (index stats, volume, the series views) neither the inputs nor
  the result have one.
\<close>

theorem statistics_additivity:
  "(\<exists>m. MergeResponse C (map LokiResp (l # ls)) = Inr (LokiResp m)
        \<and> Statistics m = stats_sum (map Statistics (l # ls)))
   \<and> (\<exists>m. MergeResponse C (map SeriesResp (s # ss)) = Inr (SeriesResp m)
        \<and> Series_Statistics m = stats_sum (map Series_Statistics (s # ss)))
   \<and> (\<exists>m. MergeResponse C (map LabelNamesResp (n # ns)) = Inr (LabelNamesResp m)
        \<and> Names_Statistics m = stats_sum (map Names_Statistics (n # ns)))
   \<and> MergeResponse C (map PromResp (p # ps)) =
       (case PrometheusCodec_MergeResponse C (map Response (p # ps)) of
          Inl e \<Rightarrow> Inl e
        | Inr q \<Rightarrow>
            Inr (PromResp \<lparr>Response = q,
                   Prom_Statistics = stats_sum (map Prom_Statistics (p # ps))\<rparr>))
   \<and> (MergeResponse C rs = Inr m \<longrightarrow>
        GetStatistics m = map_option stats_sum (those (map GetStatistics rs)))"
proof -
  obtain x where "mergeLokiResponse (map LokiResp (l # ls)) = Inr (Some x)"
    and "Statistics x = merged_stats (map Statistics (l # ls))"
    using mergeLokiResponse_typed[of l ls] by simp
  then have 1: "\<exists>m. MergeResponse C (map LokiResp (l # ls)) = Inr (LokiResp m)
        \<and> Statistics m = stats_sum (map Statistics (l # ls))"
    by (simp add: merged_stats_sum)
  have 2: "\<exists>m. MergeResponse C (map SeriesResp (s # ss)) = Inr (SeriesResp m)
        \<and> Series_Statistics m = stats_sum (map Series_Statistics (s # ss))"
    unfolding MergeResponse_series by (simp add: merged_stats_sum)
  have 3: "\<exists>m. MergeResponse C (map LabelNamesResp (n # ns)) = Inr (LabelNamesResp m)
        \<and> Names_Statistics m = stats_sum (map Names_Statistics (n # ns))"
    unfolding MergeResponse_names by (simp add: merged_stats_sum)
  show ?thesis
    using 1 2 3 MergeResponse_prom[of C p ps] statistics_of_merge[of C rs m] by blast
qed

theorem statistics_additivity_witness:
  "\<exists>m. MergeResponse example_collaborators
          [LokiResp (loki_response ''success'' [] 10 FORWARD (stats_of 1 2 3) []),
           LokiResp (loki_response ''success'' [] 10 FORWARD (stats_of 10 20 30) [])] = Inr m
      \<and> GetStatistics m = Some (stats_of 11 22 33)"
proof -
  define a where "a = loki_response ''success'' [] 10 FORWARD (stats_of 1 2 3) []"
  define b where "b = loki_response ''success'' [] 10 FORWARD (stats_of 10 20 30) []"
  obtain x where x: "mergeLokiResponse (map LokiResp [a, b]) = Inr (Some x)"
    using mergeLokiResponse_typed[of a "[b]"] by simp
  then have m: "MergeResponse example_collaborators [LokiResp a, LokiResp b] = Inr (LokiResp x)"
    by simp
  have "GetStatistics (LokiResp x) = Some (stats_of 11 22 33)"
    using statistics_additivity[where C = example_collaborators
        and rs = "[LokiResp a, LokiResp b]" and m = "LokiResp x"] m
    by (simp add: a_def b_def loki_response_def stats_sum_def stats_of_def)
  then show ?thesis using m unfolding a_def b_def by blast
qed

text \<open>
  C4, as amended. Merging the one-element list \<open>[r]\<close> returns \<open>r\<close> itself
  \<^item> for a LokiResponse with status "success", result type "streams" and no headers, whose
    streams have pairwise distinct label sets in output key order and hold at most
    \<open>Limit\<close> entries;
  \<^item> for a SeriesResponse without headers whose series have pairwise distinct hashes;
  \<^item> for a LabelNamesResponse without headers and without a repeated name;
  \<^item> for every merged series view;
  \<^item> for an IndexStatsResponse, a Prometheus response and a VolumeResponse that hold a
    payload, when the combiner that the merge delegates to hands back its single input.
\<close>

theorem single_response_merge:
  "(Status r = QueryStatusSuccess \<and> ResultType (Data r) = ResultTypeStream \<and> Headers r = []
      \<and> sorted_wrt (key_order (Direction r)) (map Labels (Result (Data r)))
      \<and> Count r \<le> uint (Limit r)
      \<longrightarrow> MergeResponse C [LokiResp r] = Inr (LokiResp r))
   \<and> (Series_Headers s = [] \<and> distinct (map (series_Hash C) (Series_Data s))
      \<longrightarrow> MergeResponse C [SeriesResp s] = Inr (SeriesResp s))
   \<and> (Names_Headers n = [] \<and> distinct (Names_Data n)
      \<longrightarrow> MergeResponse C [LabelNamesResp n] = Inr (LabelNamesResp n))
   \<and> MergeResponse C [MergedViewResp v] = Inr (MergedViewResp v)
   \<and> (Stats_Response i = Some x \<and> indexStats_MergeStats C [Some x] = x
      \<longrightarrow> MergeResponse C [IndexStatsResp i] = Inr (IndexStatsResp i))
   \<and> (PrometheusCodec_MergeResponse C [Response p] = Inr (Response p)
      \<longrightarrow> MergeResponse C [PromResp p] = Inr (PromResp p))
   \<and> (Volume_Response w = Some y \<and> seriesvolume_Merge C [Some y] (Volume_Limit y) = Some y
      \<longrightarrow> MergeResponse C [VolumeResp w] = Inr (VolumeResp w))"
  using single_loki[of r C] single_series[of s C] single_names[of n] single_index_stats[of i x C]
    single_merged_view[of C v] single_prom[of C p] single_volume[of w y C]
  by blast

theorem single_response_merge_witness:
  "Count (loki_response ''success''
       [\<lparr>Labels = ''a'', Entries = [entry 1 ''x'', entry 2 ''y'']\<rparr>,
        \<lparr>Labels = ''b'', Entries = [entry 1 ''z'']\<rparr>] 10 FORWARD (stats_of 1 2 3) []) = 3
   \<and> MergeResponse example_collaborators
       [LokiResp (loki_response ''success''
          [\<lparr>Labels = ''a'', Entries = [entry 1 ''x'', entry 2 ''y'']\<rparr>,
           \<lparr>Labels = ''b'', Entries = [entry 1 ''z'']\<rparr>] 10 FORWARD (stats_of 1 2 3) [])]
     = Inr (LokiResp (loki_response ''success''
          [\<lparr>Labels = ''a'', Entries = [entry 1 ''x'', entry 2 ''y'']\<rparr>,
           \<lparr>Labels = ''b'', Entries = [entry 1 ''z'']\<rparr>] 10 FORWARD (stats_of 1 2 3) []))
   \<and> MergeResponse example_collaborators
       [SeriesResp (series_response [env_prod, env_dev] (stats_of 1 2 3) [])]
     = Inr (SeriesResp (series_response [env_prod, env_dev] (stats_of 1 2 3) []))
   \<and> MergeResponse example_collaborators
       [LabelNamesResp \<lparr>Names_Status = ''success'', Names_Data = [''job'', ''env''],
          Names_Version = 1, Names_Headers = [], Names_Statistics = stats_of 1 2 3\<rparr>]
     = Inr (LabelNamesResp \<lparr>Names_Status = ''success'', Names_Data = [''job'', ''env''],
          Names_Version = 1, Names_Headers = [], Names_Statistics = stats_of 1 2 3\<rparr>)
   \<and> MergeResponse example_collaborators
       [PromResp \<lparr>Response = \<lparr>Prom_Status = ''success'',
            Prom_Data = \<lparr>Prom_ResultType = ''matrix'', Prom_Result = []\<rparr>,
            Prom_ErrorType = [], Prom_Error = [], Prom_Headers = []\<rparr>,
          Prom_Statistics = stats_of 1 2 3\<rparr>]
     = Inr (PromResp \<lparr>Response = \<lparr>Prom_Status = ''success'',
            Prom_Data = \<lparr>Prom_ResultType = ''matrix'', Prom_Result = []\<rparr>,
            Prom_ErrorType = [], Prom_Error = [], Prom_Headers = []\<rparr>,
          Prom_Statistics = stats_of 1 2 3\<rparr>)
   \<and> MergeResponse example_collaborators
       [IndexStatsResp
          \<lparr>Stats_Response = Some \<lparr>Stats_Streams = 1, Stats_Chunks = 2, Stats_Bytes = 3,
                                   Stats_Entries = 4\<rparr>,
           Stats_Headers = []\<rparr>]
     = Inr (IndexStatsResp
          \<lparr>Stats_Response = Some \<lparr>Stats_Streams = 1, Stats_Chunks = 2, Stats_Bytes = 3,
                                   Stats_Entries = 4\<rparr>,
           Stats_Headers = []\<rparr>)
   \<and> MergeResponse example_collaborators
       [VolumeResp \<lparr>Volume_Response = Some \<lparr>Volumes = [], Volume_Limit = 5\<rparr>,
                    Volume_Headers = []\<rparr>]
     = Inr (VolumeResp \<lparr>Volume_Response = Some \<lparr>Volumes = [], Volume_Limit = 5\<rparr>,
                         Volume_Headers = []\<rparr>)"
proof -
  define r where "r = loki_response ''success''
       [\<lparr>Labels = ''a'', Entries = [entry 1 ''x'', entry 2 ''y'']\<rparr>,
        \<lparr>Labels = ''b'', Entries = [entry 1 ''z'']\<rparr>] 10 FORWARD (stats_of 1 2 3) []"
  have c: "Count r = 3" by (simp add: r_def loki_response_def Count_def)
  have h: "Status r = QueryStatusSuccess" "ResultType (Data r) = ResultTypeStream" "Headers r = []"
    "sorted_wrt (key_order (Direction r)) (map Labels (Result (Data r)))"
    "Count r \<le> uint (Limit r)"
    unfolding c by (simp_all add: r_def loki_response_def QueryStatusSuccess_def
        ResultTypeStream_def key_order_def)
  have hs: "distinct (map (series_Hash example_collaborators)
       (Series_Data (series_response [env_prod, env_dev] (stats_of 1 2 3) [])))"
    "Series_Headers (series_response [env_prod, env_dev] (stats_of 1 2 3) []) = []"
    by (simp_all add: series_response_def example_collaborators_def env_prod_def env_dev_def)
  note t = single_response_merge[where r = r and C = example_collaborators
      and s = "series_response [env_prod, env_dev] (stats_of 1 2 3) []"
      and n = "\<lparr>Names_Status = ''success'', Names_Data = [''job'', ''env''],
          Names_Version = 1, Names_Headers = [], Names_Statistics = stats_of 1 2 3\<rparr>"
      and i = "\<lparr>Stats_Response = Some \<lparr>Stats_Streams = 1, Stats_Chunks = 2, Stats_Bytes = 3,
                                   Stats_Entries = 4\<rparr>,
           Stats_Headers = []\<rparr>"
      and x = "\<lparr>Stats_Streams = 1, Stats_Chunks = 2, Stats_Bytes = 3, Stats_Entries = 4\<rparr>"
      and p = "\<lparr>Response = \<lparr>Prom_Status = ''success'',
            Prom_Data = \<lparr>Prom_ResultType = ''matrix'', Prom_Result = []\<rparr>,
            Prom_ErrorType = [], Prom_Error = [], Prom_Headers = []\<rparr>,
          Prom_Statistics = stats_of 1 2 3\<rparr>"
      and w = "\<lparr>Volume_Response = Some \<lparr>Volumes = [], Volume_Limit = 5\<rparr>,
               Volume_Headers = []\<rparr>"
      and y = "\<lparr>Volumes = [], Volume_Limit = 5\<rparr>"]
  have p: "PrometheusCodec_MergeResponse example_collaborators [x] = Inr x" for x
    by (simp add: example_collaborators_def)
  have i: "indexStats_MergeStats example_collaborators [Some x] = x" for x
    by (simp add: example_collaborators_def)
  have v: "seriesvolume_Merge example_collaborators [x] l = x" for x l
    by (simp add: example_collaborators_def)
  show ?thesis
    using t h hs c p i v unfolding r_def[symmetric] by simp
qed

theorem single_response_merge_counterexample:
  "MergeResponse example_collaborators
     [LokiResp (loki_response ''success'' [] 10 FORWARD (stats_of 0 0 0)
        [\<lparr>Name = ''Content-Type'', Values = [''application/json'']\<rparr>])]
   \<noteq> Inr (LokiResp (loki_response ''success'' [] 10 FORWARD (stats_of 0 0 0)
        [\<lparr>Name = ''Content-Type'', Values = [''application/json'']\<rparr>]))
   \<and> MergeResponse example_collaborators
     [LokiResp (loki_response ''success''
        [\<lparr>Labels = ''b'', Entries = [entry 1 ''x'']\<rparr>,
         \<lparr>Labels = ''a'', Entries = [entry 2 ''y'', entry 3 ''z'']\<rparr>] 2 FORWARD (stats_of 0 0 0) [])]
   = Inr (LokiResp (loki_response ''success''
        [\<lparr>Labels = ''a'', Entries = [entry 2 ''y'']\<rparr>,
         \<lparr>Labels = ''b'', Entries = [entry 1 ''x'']\<rparr>] 2 FORWARD (stats_of 0 0 0) []))
   \<and> MergeResponse example_collaborators
     [SeriesResp (series_response [env_prod, env_prod] (stats_of 0 0 0) [])]
   = Inr (SeriesResp (series_response [env_prod] (stats_of 0 0 0) []))
   \<and> MergeResponse example_collaborators [SeriesViewResp [1, 2, 3]]
   = Inr (MergedViewResp \<lparr>responses = [[1, 2, 3]]\<rparr>)
   \<and> MergeResponse example_collaborators
     [IndexStatsResp \<lparr>Stats_Response = None, Stats_Headers = []\<rparr>]
   = Inr (IndexStatsResp
       \<lparr>Stats_Response = Some \<lparr>Stats_Streams = 0, Stats_Chunks = 0, Stats_Bytes = 0,
                                Stats_Entries = 0\<rparr>,
        Stats_Headers = []\<rparr>)
   \<and> MergeResponse example_collaborators
     [VolumeResp \<lparr>Volume_Response = None, Volume_Headers = []\<rparr>]
   = Inl (Panic ''nil pointer dereference'')"
proof -
  define r0 where "r0 = loki_response ''success'' [] 10 FORWARD (stats_of 0 0 0)
        [\<lparr>Name = ''Content-Type'', Values = [''application/json'']\<rparr>]"
  obtain m where m: "mergeLokiResponse (map LokiResp [r0]) = Inr (Some m)" "Headers m = []"
    using mergeLokiResponse_typed[of r0 "[]"] by simp
  then have "MergeResponse example_collaborators [LokiResp r0] = Inr (LokiResp m)" by simp
  moreover have "Headers r0 \<noteq> []" by (simp add: r0_def loki_response_def)
  ultimately have 1: "MergeResponse example_collaborators [LokiResp r0] \<noteq> Inr (LokiResp r0)"
    using m(2) by auto
  have 2: "MergeResponse example_collaborators
     [LokiResp (loki_response ''success''
        [\<lparr>Labels = ''b'', Entries = [entry 1 ''x'']\<rparr>,
         \<lparr>Labels = ''a'', Entries = [entry 2 ''y'', entry 3 ''z'']\<rparr>] 2 FORWARD (stats_of 0 0 0) [])]
   = Inr (LokiResp (loki_response ''success''
        [\<lparr>Labels = ''a'', Entries = [entry 2 ''y'']\<rparr>,
         \<lparr>Labels = ''b'', Entries = [entry 1 ''x'']\<rparr>] 2 FORWARD (stats_of 0 0 0) []))"
  proof -
    define r1 where "r1 = loki_response ''success''
        [\<lparr>Labels = ''b'', Entries = [entry 1 ''x'']\<rparr>,
         \<lparr>Labels = ''a'', Entries = [entry 2 ''y'', entry 3 ''z'']\<rparr>] 2 FORWARD (stats_of 0 0 0) []"
    have "mergeOrderedNonOverlappingStreams [r1] 2 FORWARD
        = [\<lparr>Labels = ''a'', Entries = [entry 2 ''y'']\<rparr>,
           \<lparr>Labels = ''b'', Entries = [entry 1 ''x'']\<rparr>]"
      unfolding r1_def by code_simp
    then have "mergeLokiResponse (map LokiResp [r1]) = Inr (Some (loki_response ''success''
        [\<lparr>Labels = ''a'', Entries = [entry 2 ''y'']\<rparr>,
         \<lparr>Labels = ''b'', Entries = [entry 1 ''x'']\<rparr>] 2 FORWARD (stats_of 0 0 0) []))"
      unfolding mergeLokiResponse_typed
      by (simp add: r1_def loki_response_def QueryStatusSuccess_def ResultTypeStream_def
          merged_stats_def stats_of_def)
    then show ?thesis unfolding r1_def by simp
  qed
  have 3: "MergeResponse example_collaborators
     [SeriesResp (series_response [env_prod, env_prod] (stats_of 0 0 0) [])]
   = Inr (SeriesResp (series_response [env_prod] (stats_of 0 0 0) []))"
    by (simp add: assert_all_def merge_series_def merged_stats_def MergeSplit_def stats_zero_def
        series_response_def stats_of_def example_collaborators_def env_prod_def)
  have 4: "MergeResponse example_collaborators [SeriesViewResp [1, 2, 3]]
   = Inr (MergedViewResp \<lparr>responses = [[1, 2, 3]]\<rparr>)"
    by (simp add: assert_all_def)
  have 5: "MergeResponse example_collaborators
     [IndexStatsResp \<lparr>Stats_Response = None, Stats_Headers = []\<rparr>]
   = Inr (IndexStatsResp
       \<lparr>Stats_Response = Some \<lparr>Stats_Streams = 0, Stats_Chunks = 0, Stats_Bytes = 0,
                                Stats_Entries = 0\<rparr>,
        Stats_Headers = []\<rparr>)"
    by (simp add: assert_all_def example_collaborators_def)
  have 6: "MergeResponse example_collaborators
     [VolumeResp \<lparr>Volume_Response = None, Volume_Headers = []\<rparr>]
   = Inl (Panic ''nil pointer dereference'')"
    by (simp add: assert_all_def)
  show ?thesis using 1 2 3 4 5 6 unfolding r0_def by blast
qed

lemma sort_key_perm:
  assumes "mset xs = mset ys" and "distinct (map f xs)"
  shows "sort_key f xs = sort_key f ys"
proof (rule sort_key_inj_key_eq)
  show "mset xs = mset (sort_key f ys)" using assms(1) by simp
  show "inj_on f (set xs)" using assms(2) by (simp add: distinct_map)
  show "sorted (map f (sort_key f ys))" by simp
qed

lemma distinct_snd_filter:
  "distinct xs \<Longrightarrow> distinct (map snd (filter (\<lambda>p. fst p = k) xs))"
proof (induction xs)
  case Nil
  then show ?case by simp
next
  case (Cons a xs)
  then show ?case by (cases a) (auto simp: image_iff)
qed

lemma chunk_starts_of_key:
  "map chunk_start (filter (\<lambda>m. m \<noteq> []) (chunks_of k ss))
     = map snd (filter (\<lambda>p. fst p = k) (start_keys ss))"
  by (induction ss) (auto simp: start_keys_def)

lemma distinct_dir_key:
  "distinct (map chunk_start xs) \<Longrightarrow> distinct (map (dir_key d) xs)"
proof -
  assume a: "distinct (map chunk_start xs)"
  have "map (dir_key d) xs = map (\<lambda>t. case d of FORWARD \<Rightarrow> t | BACKWARD \<Rightarrow> - t) (map chunk_start xs)"
    by (simp add: dir_key_def comp_def)
  moreover have "inj (\<lambda>t::int. case d of FORWARD \<Rightarrow> t | BACKWARD \<Rightarrow> - t)"
    by (cases d) (auto simp: inj_on_def)
  ultimately show ?thesis
    using a inj_on_subset[OF _ subset_UNIV, of _ "set (map chunk_start xs)"]
    by (simp add: distinct_map del: map_map)
qed

lemma byDir_merge_swap:
  assumes "distinct (start_keys (sa @ sb))"
  shows "byDir_merge \<lparr>markers = chunks_of k (sa @ sb), direction = d, labels = k\<rparr>
       = byDir_merge \<lparr>markers = chunks_of k (sb @ sa), direction = d, labels = k\<rparr>"
proof -
  define xs where "xs = filter (\<lambda>m. m \<noteq> []) (chunks_of k (sa @ sb))"
  define ys where "ys = filter (\<lambda>m. m \<noteq> []) (chunks_of k (sb @ sa))"
  have m: "mset xs = mset ys" by (simp add: xs_def ys_def)
  have "distinct (map chunk_start xs)"
    unfolding xs_def chunk_starts_of_key using assms by (rule distinct_snd_filter)
  then have "distinct (map (dir_key d) xs)" by (rule distinct_dir_key)
  from sort_key_perm[OF m this] show ?thesis
    by (simp add: byDir_merge_def xs_def ys_def)
qed

lemma consumed_two:
  assumes "count_entries (Result (Data a)) < n"
  shows "consumed [a, b] n 0 = Result (Data a) @ Result (Data b)"
  using assms by simp

lemma merge_swap:
  assumes "count_entries (Result (Data a)) < unat limit"
    and "count_entries (Result (Data b)) < unat limit"
    and "distinct (start_keys (Result (Data a) @ Result (Data b)))"
  shows "mergeOrderedNonOverlappingStreams [a, b] limit d
       = mergeOrderedNonOverlappingStreams [b, a] limit d"
proof -
  define sa where "sa = Result (Data a)"
  define sb where "sb = Result (Data b)"
  define g1 where "g1 = fst (group_responses [a, b] (unat limit) d ([], 0))"
  define g2 where "g2 = fst (group_responses [b, a] (unat limit) d ([], 0))"
  have c1: "consumed [a, b] (unat limit) 0 = sa @ sb"
    using consumed_two[OF assms(1)] by (simp add: sa_def sb_def)
  have c2: "consumed [b, a] (unat limit) 0 = sb @ sa"
    using consumed_two[OF assms(2)] by (simp add: sa_def sb_def)
  have f1: "distinct (map fst g1)" "map_of g1 = groups_of d (sa @ sb)"
    "snd (group_responses [a, b] (unat limit) d ([], 0)) = count_entries (sa @ sb)"
    using final_state[of "[a, b]" "unat limit" d] unfolding c1 by (simp_all add: g1_def)
  have f2: "distinct (map fst g2)" "map_of g2 = groups_of d (sb @ sa)"
    "snd (group_responses [b, a] (unat limit) d ([], 0)) = count_entries (sb @ sa)"
    using final_state[of "[b, a]" "unat limit" d] unfolding c2 by (simp_all add: g2_def)
  note k1 = sorted_keys_props[OF f1(1), of d]
  note k2 = sorted_keys_props[OF f2(1), of d]
  have "set (sorted_keys d g1) = set (sorted_keys d g2)"
    using k1(2) k2(2) keys_of_groups[OF f1(2)] keys_of_groups[OF f2(2)] by auto
  then have keys: "sorted_keys d g1 = sorted_keys d g2"
    using key_order_unique[OF k1(3) k2(3)] by simp
  have ds: "distinct (start_keys (sa @ sb))" using assms(3) by (simp add: sa_def sb_def)
  have ms: "merged_stream g1 = merged_stream g2"
  proof
    fix k
    show "merged_stream g1 k = merged_stream g2 k"
      using byDir_merge_swap[OF ds, of k d]
      by (auto simp: merged_stream_def f1(2) f2(2) groups_of_def)
  qed
  have cnt: "count_entries (sa @ sb) = count_entries (sb @ sa)" by simp
  show ?thesis
    unfolding mergeOrdered_tail f1(3) f2(3) g1_def[symmetric] g2_def[symmetric] keys ms cnt ..
qed

lemma all_streams_swap:
  "count_entries (all_streams [a, b]) = count_entries (all_streams [b, a])"
  by (simp add: all_streams_def)

text \<open>
  C3, as amended. For two LokiResponses with the same direction and limit, merging
  \<open>[A, B]\<close> and merging \<open>[B, A]\<close> give the same total number of entries and, in both
  orders, streams ordered by label-set key (reversed for BACKWARD). When neither response
  alone holds as many entries as the limit, so that the merger reads both of them in either
  order, and no two of their non-empty streams with the same label set start at the same
  timestamp, the two merges return the same streams with the same entries.
\<close>

theorem merge_of_swapped_inputs:
  assumes "Direction A = Direction B" and "Limit A = Limit B"
  shows "\<exists>m1 m2. mergeLokiResponse (map LokiResp [A, B]) = Inr (Some m1)
      \<and> mergeLokiResponse (map LokiResp [B, A]) = Inr (Some m2)
      \<and> Count m1 = Count m2
      \<and> sorted_wrt (key_order (Direction A)) (map Labels (Result (Data m1)))
      \<and> sorted_wrt (key_order (Direction A)) (map Labels (Result (Data m2)))
      \<and> (Count A < uint (Limit A) \<and> Count B < uint (Limit A)
           \<and> distinct (start_keys (Result (Data A) @ Result (Data B)))
           \<longrightarrow> Result (Data m1) = Result (Data m2))"
proof -
  define d where "d = Direction A"
  define l where "l = Limit A"
  define s1 where "s1 = mergeOrderedNonOverlappingStreams [A, B] l d"
  define s2 where "s2 = mergeOrderedNonOverlappingStreams [B, A] l d"
  have c: "count_entries s1 = count_entries s2"
    unfolding s1_def s2_def merge_count all_streams_swap[of A B] ..
  have o: "sorted_wrt (key_order d) (map Labels s1)" "sorted_wrt (key_order d) (map Labels s2)"
    unfolding s1_def s2_def by (rule merge_sorted)+
  have e: "s1 = s2"
    if "Count A < uint l" "Count B < uint l"
      "distinct (start_keys (Result (Data A) @ Result (Data B)))"
  proof -
    have "count_entries (Result (Data A)) < unat l" "count_entries (Result (Data B)) < unat l"
      using that(1,2) unfolding Count_count_entries uint_nat by linarith+
    then show ?thesis unfolding s1_def s2_def using that(3) by (rule merge_swap)
  qed
  obtain m1 where m1: "mergeLokiResponse (map LokiResp [A, B]) = Inr (Some m1)"
      "Result (Data m1) = s1"
    using mergeLokiResponse_typed[of A "[B]"] by (simp add: s1_def d_def l_def)
  obtain m2 where m2: "mergeLokiResponse (map LokiResp [B, A]) = Inr (Some m2)"
      "Result (Data m2) = s2"
    using mergeLokiResponse_typed[of B "[A]"] assms by (simp add: s2_def d_def l_def)
  have "Count m1 = Count m2" using c m1(2) m2(2) by (simp add: Count_count_entries)
  moreover have "Count A < uint (Limit A) \<and> Count B < uint (Limit A)
           \<and> distinct (start_keys (Result (Data A) @ Result (Data B)))
           \<longrightarrow> Result (Data m1) = Result (Data m2)"
    using e m1(2) m2(2) by (simp add: l_def)
  ultimately show ?thesis
    using m1 m2 o unfolding d_def by blast
qed

theorem merge_of_swapped_inputs_witness:
  "Count (loki_response ''success'' [\<lparr>Labels = ''a'', Entries = [entry 1 ''p'', entry 3 ''q'']\<rparr>]
       3 FORWARD (stats_of 0 0 0) []) < uint (3 :: 32 word)
   \<and> Count (loki_response ''success'' [\<lparr>Labels = ''b'', Entries = [entry 2 ''r'', entry 4 ''s'']\<rparr>]
       3 FORWARD (stats_of 0 0 0) []) < uint (3 :: 32 word)
   \<and> start_keys [\<lparr>Labels = ''a'', Entries = [entry 1 ''p'', entry 3 ''q'']\<rparr>,
                  \<lparr>Labels = ''b'', Entries = [entry 2 ''r'', entry 4 ''s'']\<rparr>]
       = [(''a'', 1), (''b'', 2)]
   \<and> (\<exists>m1 m2.
        mergeLokiResponse
          [LokiResp (loki_response ''success''
             [\<lparr>Labels = ''a'', Entries = [entry 1 ''p'', entry 3 ''q'']\<rparr>] 3 FORWARD (stats_of 0 0 0) []),
           LokiResp (loki_response ''success''
             [\<lparr>Labels = ''b'', Entries = [entry 2 ''r'', entry 4 ''s'']\<rparr>] 3 FORWARD (stats_of 0 0 0) [])]
          = Inr (Some m1)
      \<and> mergeLokiResponse
          [LokiResp (loki_response ''success''
             [\<lparr>Labels = ''b'', Entries = [entry 2 ''r'', entry 4 ''s'']\<rparr>] 3 FORWARD (stats_of 0 0 0) []),
           LokiResp (loki_response ''success''
             [\<lparr>Labels = ''a'', Entries = [entry 1 ''p'', entry 3 ''q'']\<rparr>] 3 FORWARD (stats_of 0 0 0) [])]
          = Inr (Some m2)
      \<and> Count m1 = Count m2
      \<and> Result (Data m1) = Result (Data m2))"
proof -
  define A where "A = loki_response ''success''
    [\<lparr>Labels = ''a'', Entries = [entry 1 ''p'', entry 3 ''q'']\<rparr>] 3 FORWARD (stats_of 0 0 0) []"
  define B where "B = loki_response ''success''
    [\<lparr>Labels = ''b'', Entries = [entry 2 ''r'', entry 4 ''s'']\<rparr>] 3 FORWARD (stats_of 0 0 0) []"
  have h: "Direction A = Direction B" "Limit A = Limit B"
    by (simp_all add: A_def B_def loki_response_def)
  have c: "Count A < uint (3 :: 32 word)" "Count B < uint (3 :: 32 word)"
    by (simp_all add: A_def B_def loki_response_def Count_def)
  have l: "Limit A = 3" by (simp add: A_def loki_response_def)
  have sk: "start_keys (Result (Data A) @ Result (Data B)) = [(''a'', 1), (''b'', 2)]"
    by (simp add: A_def B_def loki_response_def start_keys_def entry_def)
  have d: "distinct (start_keys (Result (Data A) @ Result (Data B)))"
    unfolding sk by simp
  from merge_of_swapped_inputs[OF h] c d l
  have "\<exists>m1 m2. mergeLokiResponse (map LokiResp [A, B]) = Inr (Some m1)
      \<and> mergeLokiResponse (map LokiResp [B, A]) = Inr (Some m2)
      \<and> Count m1 = Count m2 \<and> Result (Data m1) = Result (Data m2)"
    by auto
  then show ?thesis
    using c sk unfolding A_def B_def by (simp add: loki_response_def)
qed

theorem merge_of_swapped_inputs_counterexample:
  "(\<exists>m1 m2.
        mergeLokiResponse
          [LokiResp (loki_response ''success''
             [\<lparr>Labels = ''a'', Entries = [entry 1 ''p'', entry 2 ''q'']\<rparr>] 2 FORWARD (stats_of 0 0 0) []),
           LokiResp (loki_response ''success''
             [\<lparr>Labels = ''b'', Entries = [entry 3 ''r'', entry 4 ''s'']\<rparr>] 2 FORWARD (stats_of 0 0 0) [])]
          = Inr (Some m1)
      \<and> mergeLokiResponse
          [LokiResp (loki_response ''success''
             [\<lparr>Labels = ''b'', Entries = [entry 3 ''r'', entry 4 ''s'']\<rparr>] 2 FORWARD (stats_of 0 0 0) []),
           LokiResp (loki_response ''success''
             [\<lparr>Labels = ''a'', Entries = [entry 1 ''p'', entry 2 ''q'']\<rparr>] 2 FORWARD (stats_of 0 0 0) [])]
          = Inr (Some m2)
      \<and> Result (Data m1) = [\<lparr>Labels = ''a'', Entries = [entry 1 ''p'', entry 2 ''q'']\<rparr>]
      \<and> Result (Data m2) = [\<lparr>Labels = ''b'', Entries = [entry 3 ''r'', entry 4 ''s'']\<rparr>])
   \<and> (\<exists>m1 m2.
        mergeLokiResponse
          [LokiResp (loki_response ''success''
             [\<lparr>Labels = ''a'', Entries = [entry 1 ''p'']\<rparr>] 10 FORWARD (stats_of 0 0 0) []),
           LokiResp (loki_response ''success''
             [\<lparr>Labels = ''a'', Entries = [entry 1 ''q'']\<rparr>] 10 FORWARD (stats_of 0 0 0) [])]
          = Inr (Some m1)
      \<and> mergeLokiResponse
          [LokiResp (loki_response ''success''
             [\<lparr>Labels = ''a'', Entries = [entry 1 ''q'']\<rparr>] 10 FORWARD (stats_of 0 0 0) []),
           LokiResp (loki_response ''success''
             [\<lparr>Labels = ''a'', Entries = [entry 1 ''p'']\<rparr>] 10 FORWARD (stats_of 0 0 0) [])]
          = Inr (Some m2)
      \<and> Result (Data m1) = [\<lparr>Labels = ''a'', Entries = [entry 1 ''p'', entry 1 ''q'']\<rparr>]
      \<and> Result (Data m2) = [\<lparr>Labels = ''a'', Entries = [entry 1 ''q'', entry 1 ''p'']\<rparr>])"
proof -
  define A where "A = loki_response ''success''
    [\<lparr>Labels = ''a'', Entries = [entry 1 ''p'', entry 2 ''q'']\<rparr>] 2 FORWARD (stats_of 0 0 0) []"
  define B where "B = loki_response ''success''
    [\<lparr>Labels = ''b'', Entries = [entry 3 ''r'', entry 4 ''s'']\<rparr>] 2 FORWARD (stats_of 0 0 0) []"
  define P where "P = loki_response ''success''
    [\<lparr>Labels = ''a'', Entries = [entry 1 ''p'']\<rparr>] 10 FORWARD (stats_of 0 0 0) []"
  define Q where "Q = loki_response ''success''
    [\<lparr>Labels = ''a'', Entries = [entry 1 ''q'']\<rparr>] 10 FORWARD (stats_of 0 0 0) []"
  have ab: "mergeOrderedNonOverlappingStreams [A, B] 2 FORWARD
      = [\<lparr>Labels = ''a'', Entries = [entry 1 ''p'', entry 2 ''q'']\<rparr>]"
    unfolding A_def B_def by code_simp
  have ba: "mergeOrderedNonOverlappingStreams [B, A] 2 FORWARD
      = [\<lparr>Labels = ''b'', Entries = [entry 3 ''r'', entry 4 ''s'']\<rparr>]"
    unfolding A_def B_def by code_simp
  have pq: "mergeOrderedNonOverlappingStreams [P, Q] 10 FORWARD
      = [\<lparr>Labels = ''a'', Entries = [entry 1 ''p'', entry 1 ''q'']\<rparr>]"
    unfolding P_def Q_def by code_simp
  have qp: "mergeOrderedNonOverlappingStreams [Q, P] 10 FORWARD
      = [\<lparr>Labels = ''a'', Entries = [entry 1 ''q'', entry 1 ''p'']\<rparr>]"
    unfolding P_def Q_def by code_simp
  have f: "Limit A = 2" "Direction A = FORWARD" "Limit B = 2" "Direction B = FORWARD"
    "Limit P = 10" "Direction P = FORWARD" "Limit Q = 10" "Direction Q = FORWARD"
    by (simp_all add: A_def B_def P_def Q_def loki_response_def)
  have 1: "\<exists>m1 m2. mergeLokiResponse (map LokiResp [A, B]) = Inr (Some m1)
      \<and> mergeLokiResponse (map LokiResp [B, A]) = Inr (Some m2)
      \<and> Result (Data m1) = [\<lparr>Labels = ''a'', Entries = [entry 1 ''p'', entry 2 ''q'']\<rparr>]
      \<and> Result (Data m2) = [\<lparr>Labels = ''b'', Entries = [entry 3 ''r'', entry 4 ''s'']\<rparr>]"
    unfolding mergeLokiResponse_typed f ab ba by simp
  have 2: "\<exists>m1 m2. mergeLokiResponse (map LokiResp [P, Q]) = Inr (Some m1)
      \<and> mergeLokiResponse (map LokiResp [Q, P]) = Inr (Some m2)
      \<and> Result (Data m1) = [\<lparr>Labels = ''a'', Entries = [entry 1 ''p'', entry 1 ''q'']\<rparr>]
      \<and> Result (Data m2) = [\<lparr>Labels = ''a'', Entries = [entry 1 ''q'', entry 1 ''p'']\<rparr>]"
    unfolding mergeLokiResponse_typed f pq qp by simp
  show ?thesis using 1 2 unfolding A_def B_def P_def Q_def by simp
qed

text \<open>
  C5, as amended. For every inbound HTTP request whose form parses and whose URL path
  matches no route of the route table, the plain HTTP decode fails with the NotFound status
  (404) and the message that names the path.
\<close>

theorem DecodeRequest_unknown_path:
  assumes "ParseForm D r = None" and "getOperation D (URL_Path r) = None"
  shows "DecodeRequest D r
       = Inl (HTTPError StatusNotFound (Errorf_message D (''unknown request path: '' @ URL_Path r)))
     \<and> StatusNotFound = 404"
  using assms by (simp add: DecodeRequest_def Errorf_def StatusNotFound_def)

theorem DecodeRequest_unknown_path_witness:
  "ParseForm example_deps (get_request ''/foo'' []) = None
   \<and> getOperation example_deps (URL_Path (get_request ''/foo'' [])) = None
   \<and> DecodeRequest example_deps (get_request ''/foo'' [])
       = Inl (HTTPError 404 ''unknown request path: /foo'')"
proof -
  have p: "ParseForm example_deps (get_request ''/foo'' []) = None"
    by (simp add: example_deps_def get_request_def http_ParseForm_def parseQuery.simps)
  have g: "getOperation example_deps (URL_Path (get_request ''/foo'' [])) = None"
    by (simp add: example_deps_def get_request_def route_table_def is_label_values_path_def)
  from DecodeRequest_unknown_path[OF p g] p g show ?thesis
    by (simp add: example_deps_def get_request_def)
qed

theorem unknown_path_counterexample:
  "getOperation example_deps ''/foo'' = None
   \<and> DecodeRequest example_deps (get_request ''/foo'' ''a;b'')
       = Inl (HTTPError 400 ''invalid semicolon separator in query'')
   \<and> fst (DecodeHTTPGrpcRequest example_deps tenant_context
            \<lparr>grpc_Method = ''GET'', Url = ''/foo'', grpc_Headers = [], grpc_Body = []\<rparr>)
       = Inl (HTTPError 400 ''unknown request path: /foo'')
   \<and> StatusNotFound \<noteq> 400"
  by (simp add: example_deps_def get_request_def route_table_def is_label_values_path_def
      DecodeRequest_def DecodeHTTPGrpcRequest_def Errorf_def StatusBadRequest_def
      StatusNotFound_def tenant_context_def with_OrgID_def with_QueryTags_def
      with_QueueTime_def with_EncodingFlags_def http_ParseForm_def parseQuery.simps)

section \<open>Encoding a request and decoding it again\<close>

subsection \<open>Decimal numbers\<close>

lemma digit_value_digit_char: "n < 10 \<Longrightarrow> digit_value (digit_char n) = Some n"
  by (simp add: digit_value_def digit_char_def)

lemma read_digits_append:
  "read_digits acc (xs @ ys) = (case read_digits acc xs of None \<Rightarrow> None | Some a \<Rightarrow> read_digits a ys)"
  by (induction xs arbitrary: acc) (auto split: option.splits)

lemma read_digits_nat_decimal: "read_digits 0 (nat_decimal n) = Some n"
proof (induction n rule: nat_decimal.induct)
  case (1 n)
  show ?case
  proof (cases "n < 10")
    case True
    then show ?thesis by (subst nat_decimal.simps) (simp add: digit_value_digit_char)
  next
    case False
    then show ?thesis
      using 1 by (subst nat_decimal.simps) (simp add: read_digits_append digit_value_digit_char)
  qed
qed

lemma nat_decimal_nonempty: "nat_decimal n \<noteq> []"
  by (subst nat_decimal.simps) simp

lemma read_nat_decimal: "read_nat (nat_decimal n) = Some n"
  by (simp add: read_nat_def nat_decimal_nonempty read_digits_nat_decimal)

lemma digit_char_not_minus: "n < 10 \<Longrightarrow> digit_char n \<noteq> CHR ''-''"
proof
  assume n: "n < 10" and "digit_char n = CHR ''-''"
  then have "(of_char (digit_char n) :: nat) = of_char CHR ''-''" by simp
  then show False using n by (simp add: digit_char_def)
qed

lemma hd_nat_decimal: "hd (nat_decimal n) \<noteq> CHR ''-''"
proof (induction n rule: nat_decimal.induct)
  case (1 n)
  show ?case
  proof (cases "n < 10")
    case True
    then show ?thesis by (subst nat_decimal.simps) (simp add: digit_char_not_minus)
  next
    case False
    then show ?thesis using 1 nat_decimal_nonempty[of "n div 10"]
      by (subst nat_decimal.simps) simp
  qed
qed

lemma read_int_Sprintf_d: "read_int (Sprintf_d n) = Some n"
proof (cases "n < 0")
  case True
  then show ?thesis by (simp add: read_int_def Sprintf_d_def read_nat_decimal)
next
  case False
  obtain c cs where s: "nat_decimal (nat n) = c # cs"
    using nat_decimal_nonempty[of "nat n"] by (cases "nat_decimal (nat n)") auto
  have "c \<noteq> CHR ''-''" using hd_nat_decimal[of "nat n"] s by simp
  then show ?thesis
    using False read_nat_decimal[of "nat n"] s by (simp add: read_int_def Sprintf_d_def)
qed


lemma read_Direction_String: "read_Direction (Direction_String d) = Some d"
  by (cases d) (simp_all add: read_Direction_def)

lemma word_of_int_uint32: "word_of_int (uint l) = (l :: 32 word)"
  by simp

lemma word_of_int_sint32: "word_of_int (sint l) = (l :: 32 word)"
  by simp

subsection \<open>Escaping\<close>

lemma ishex_upperhex: "d < 16 \<Longrightarrow> ishex (upperhex d)"
  by (simp add: ishex_def upperhex_def)

lemma unhex_upperhex: "d < 16 \<Longrightarrow> unhex (upperhex d) = d"
  by (simp add: unhex_def upperhex_def)

lemma of_char_upperhex:
  "d < 16 \<Longrightarrow> (of_char (upperhex d) :: nat) = (if d < 10 then 48 + d else 55 + d)"
  by (simp add: upperhex_def)

lemma upperhex_not_separator:
  assumes "d < 16"
  shows "upperhex d \<noteq> CHR ''&''" "upperhex d \<noteq> CHR ''=''" "upperhex d \<noteq> CHR '';''"
proof -
  have "(of_char (upperhex d) :: nat) \<noteq> of_char CHR ''&''"
    "(of_char (upperhex d) :: nat) \<noteq> of_char CHR ''=''"
    "(of_char (upperhex d) :: nat) \<noteq> of_char CHR '';''"
    using assms by (simp_all add: of_char_upperhex)
  then show "upperhex d \<noteq> CHR ''&''" "upperhex d \<noteq> CHR ''=''" "upperhex d \<noteq> CHR '';''"
    by auto
qed

lemma kept_char:
  assumes "\<not> shouldEscape c"
  shows "c \<noteq> CHR ''%''" "c \<noteq> CHR ''+''" "c \<noteq> CHR ''&''" "c \<noteq> CHR ''=''" "c \<noteq> CHR '';''"
  using assms by (auto simp: shouldEscape_def)

lemma of_char_div_mod: "(of_char c :: nat) div 16 < 16" "(of_char c :: nat) mod 16 < 16"
proof -
  have "(of_char c :: nat) < 16 * 16" by simp
  then show "(of_char c :: nat) div 16 < 16" by (rule less_mult_imp_div_less)
  show "(of_char c :: nat) mod 16 < 16" by simp
qed

lemma QueryEscape_chars:
  "x \<in> set (QueryEscape s) \<Longrightarrow> x \<noteq> CHR ''&'' \<and> x \<noteq> CHR ''='' \<and> x \<noteq> CHR '';''"
proof (induction s)
  case Nil
  then show ?case by simp
next
  case (Cons c s)
  consider "x = c \<and> \<not> shouldEscape c" | "x = CHR ''+''" | "x = CHR ''%''"
    | "x = upperhex (of_char c div 16)" | "x = upperhex (of_char c mod 16)"
    | "x \<in> set (QueryEscape s)"
    using Cons.prems by (auto split: if_splits)
  then show ?case
  proof cases
    case 1
    then show ?thesis using kept_char[of c] by simp
  next
    case 2
    then show ?thesis by simp
  next
    case 3
    then show ?thesis by simp
  next
    case 4
    then show ?thesis using upperhex_not_separator[OF of_char_div_mod(1), of c] by simp
  next
    case 5
    then show ?thesis using upperhex_not_separator[OF of_char_div_mod(2), of c] by simp
  next
    case 6
    then show ?thesis using Cons.IH by simp
  qed
qed

lemma QueryEscape_no_separator:
  "CHR ''&'' \<notin> set (QueryEscape s)" "CHR ''='' \<notin> set (QueryEscape s)"
  "CHR '';'' \<notin> set (QueryEscape s)"
  using QueryEscape_chars by blast+

lemma QueryUnescape_QueryEscape: "QueryUnescape (QueryEscape s) = Some s"
proof (induction s)
  case Nil
  then show ?case by simp
next
  case (Cons c s)
  show ?case
  proof (cases "shouldEscape c")
    case False
    then show ?thesis using Cons kept_char[OF False] by simp
  next
    case True
    show ?thesis
    proof (cases "c = CHR '' ''")
      case True
      then show ?thesis using Cons \<open>shouldEscape c\<close> by simp
    next
      case False
      have "char_of ((of_char c :: nat) div 16 * 16 + (of_char c :: nat) mod 16) = c"
        by simp
      then show ?thesis
        using Cons True False
        by (simp add: ishex_upperhex unhex_upperhex of_char_div_mod)
    qed
  qed
qed

subsection \<open>Parsing an encoded query string\<close>

lemma piece_props:
  "piece kx \<noteq> []" "CHR ''&'' \<notin> set (piece kx)" "CHR '';'' \<notin> set (piece kx)"
  "takeWhile (\<lambda>c. c \<noteq> CHR ''='') (piece kx) = QueryEscape (fst kx)"
  "drop (Suc 0) (dropWhile (\<lambda>c. c \<noteq> CHR ''='') (piece kx)) = QueryEscape (snd kx)"
proof -
  show "piece kx \<noteq> []" by (simp add: piece_def)
  show "CHR ''&'' \<notin> set (piece kx)" "CHR '';'' \<notin> set (piece kx)"
    using QueryEscape_no_separator by (simp_all add: piece_def)
  have k: "\<And>x. x \<in> set (QueryEscape (fst kx)) \<Longrightarrow> x \<noteq> CHR ''=''"
    using QueryEscape_no_separator(2) by auto
  show "takeWhile (\<lambda>c. c \<noteq> CHR ''='') (piece kx) = QueryEscape (fst kx)"
    unfolding piece_def using k by (simp add: takeWhile_append2)
  show "drop (Suc 0) (dropWhile (\<lambda>c. c \<noteq> CHR ''='') (piece kx)) = QueryEscape (snd kx)"
    unfolding piece_def using k by (simp add: dropWhile_append2)
qed

lemma cut_Join:
  assumes "CHR ''&'' \<notin> set p"
  shows "takeWhile (\<lambda>c. c \<noteq> CHR ''&'') (Join (p # ps) ''&'') = p"
    and "drop (Suc 0) (dropWhile (\<lambda>c. c \<noteq> CHR ''&'') (Join (p # ps) ''&'')) = Join ps ''&''"
proof -
  have k: "\<And>x. x \<in> set p \<Longrightarrow> x \<noteq> CHR ''&''" using assms by auto
  show "takeWhile (\<lambda>c. c \<noteq> CHR ''&'') (Join (p # ps) ''&'') = p"
    using k by (cases ps) (simp_all add: takeWhile_append2)
  have e: "dropWhile (\<lambda>c. c \<noteq> CHR ''&'') p = []"
    using k by (simp add: dropWhile_eq_Nil_conv)
  show "drop (Suc 0) (dropWhile (\<lambda>c. c \<noteq> CHR ''&'') (Join (p # ps) ''&'')) = Join ps ''&''"
  proof (cases ps)
    case Nil
    then show ?thesis by (simp only: Join.simps e drop_Nil)
  next
    case (Cons q qs)
    then show ?thesis using k by (simp add: dropWhile_append2)
  qed
qed

lemma parseQuery_piece:
  "parseQuery m err (Join (piece kx # ps) ''&'') = parseQuery (add_value m kx) err (Join ps ''&'')"
proof -
  have ne: "Join (piece kx # ps) ''&'' \<noteq> []"
    using piece_props(1)[of kx] by (cases ps) simp_all
  show ?thesis
    by (subst parseQuery.simps)
      (simp add: ne cut_Join[OF piece_props(2)] piece_props QueryUnescape_QueryEscape
        add_value_def Let_def)
qed

lemma parseQuery_pieces:
  "parseQuery m err (Join (map piece kxs) ''&'') = (foldl add_value m kxs, err)"
proof (induction kxs arbitrary: m)
  case Nil
  then show ?case by (simp add: parseQuery.simps)
next
  case (Cons kx kxs)
  then show ?case by (simp add: parseQuery_piece)
qed

lemma Values_Get_update:
  "Values_Get (AList.update k v m) k' = (if k' = k then v else Values_Get m k')"
  by (simp add: Values_Get_def update_conv')

lemma Values_Get_foldl:
  "Values_Get (foldl add_value m kxs) k
     = Values_Get m k @ map snd (filter (\<lambda>kx. fst kx = k) kxs)"
  by (induction kxs arbitrary: m) (auto simp: add_value_def Values_Get_update)

lemma values_of_pairs:
  "distinct (map fst v) \<Longrightarrow>
   map snd (filter (\<lambda>kx. fst kx = k) (pairs_of v)) = Values_Get v k"
proof (induction v)
  case Nil
  then show ?case by (simp add: pairs_of_def Values_Get_def)
next
  case (Cons a v)
  have f: "filter (\<lambda>kx. fst kx = k) (map (\<lambda>x. (fst a, x)) (snd a))
      = (if fst a = k then map (\<lambda>x. (fst a, x)) (snd a) else [])"
    by (induction "snd a") (auto simp: filter_empty_conv)
  have "map_of v (fst a) = None"
    using Cons.prems by (simp add: map_of_eq_None_iff)
  then have n: "fst a = k \<Longrightarrow> Values_Get v k = []"
    by (auto simp: Values_Get_def)
  have "pairs_of (a # v) = map (\<lambda>x. (fst a, x)) (snd a) @ pairs_of v"
    by (simp add: pairs_of_def)
  moreover have "map snd (filter (\<lambda>kx. fst kx = k) (pairs_of v)) = Values_Get v k"
    using Cons by simp
  moreover have "Values_Get (a # v) k = (if fst a = k then snd a else Values_Get v k)"
    by (cases a) (auto simp: Values_Get_def)
  ultimately show ?case using f n by (simp add: comp_def)
qed

lemma Encode_pieces: "Encode v = Join (map piece (pairs_of (sort_key fst v))) ''&''"
  by (simp add: Encode_def pairs_of_def piece_def map_concat comp_def)

lemma Values_Get_sorted:
  assumes "distinct (map fst v)"
  shows "distinct (map fst (sort_key fst v))"
    and "Values_Get (sort_key fst v) k = Values_Get v k"
proof -
  have "mset (map fst (sort_key fst v)) = mset (map fst v)" by simp
  then show d: "distinct (map fst (sort_key fst v))"
    using assms mset_eq_imp_distinct_iff by blast
  have "map_of (sort_key fst v) = map_of v"
    using map_of_inject_set[OF d assms] by simp
  then show "Values_Get (sort_key fst v) k = Values_Get v k"
    by (simp add: Values_Get_def)
qed

lemma parseQuery_Encode:
  assumes "distinct (map fst v)"
  shows "snd (parseQuery [] None (Encode v)) = None"
    and "Values_Get (fst (parseQuery [] None (Encode v))) k = Values_Get v k"
proof -
  show "snd (parseQuery [] None (Encode v)) = None"
    by (simp add: Encode_pieces parseQuery_pieces)
  have e: "Values_Get [] k = []" by (simp add: Values_Get_def)
  have "Values_Get (foldl add_value [] (pairs_of (sort_key fst v))) k
      = Values_Get (sort_key fst v) k"
    unfolding Values_Get_foldl e
    using values_of_pairs[OF Values_Get_sorted(1)[OF assms], of k] by simp
  then show "Values_Get (fst (parseQuery [] None (Encode v))) k = Values_Get v k"
    using Values_Get_sorted(2)[OF assms, of k]
    by (simp add: Encode_pieces parseQuery_pieces)
qed

subsection \<open>Fractional seconds\<close>

lemma digits_nat_decimal: "c \<in> set (nat_decimal n) \<Longrightarrow> \<exists>d<10. c = digit_char d"
proof (induction n rule: nat_decimal.induct)
  case (1 n)
  show ?case
  proof (cases "n < 10")
    case True
    then show ?thesis using 1(2) by (subst (asm) nat_decimal.simps) auto
  next
    case False
    have "c \<in> set (nat_decimal (n div 10)) \<or> c = digit_char (n mod 10)"
      using 1(2) False by (subst (asm) nat_decimal.simps) auto
    then show ?thesis
    proof
      assume "c \<in> set (nat_decimal (n div 10))"
      then show ?thesis using 1(1) False by simp
    next
      assume "c = digit_char (n mod 10)"
      moreover have "n mod 10 < 10" by simp
      ultimately show ?thesis by blast
    qed
  qed
qed

lemma read_digits_total:
  "(\<And>c. c \<in> set s \<Longrightarrow> \<exists>d. digit_value c = Some d) \<Longrightarrow> \<exists>n. read_digits acc s = Some n"
proof (induction s arbitrary: acc)
  case Nil
  then show ?case by simp
next
  case (Cons a s)
  obtain d where "digit_value a = Some d" using Cons.prems[of a] by auto
  moreover have "\<exists>n. read_digits (10 * acc + d) s = Some n"
    using Cons.IH[of "10 * acc + d"] Cons.prems by simp
  ultimately show ?case by simp
qed

lemma digit_value_zero: "digit_value CHR ''0'' = Some 0"
  by (simp add: digit_value_def)

lemma digit_char_not_point: "d < 10 \<Longrightarrow> digit_char d \<noteq> CHR ''.''"
proof
  assume d: "d < 10" and "digit_char d = CHR ''.''"
  then have "(of_char (digit_char d) :: nat) = of_char CHR ''.''" by simp
  then show False using d by (simp add: digit_char_def)
qed

lemma read_seconds_Sprintf_f: "\<exists>d. read_seconds (Sprintf_f m) = Some d"
proof -
  define a where "a = nat \<bar>m\<bar>"
  define A where "A = nat_decimal (a div 1000000)"
  define F where "F = replicate (6 - length (nat_decimal (a mod 1000000))) CHR ''0''
      @ nat_decimal (a mod 1000000)"
  have s: "Sprintf_f m = (if m < 0 then ''-'' else []) @ A @ ''.'' @ F"
    by (simp add: Sprintf_f_def a_def A_def F_def Let_def)
  obtain c cs where A: "A = c # cs"
    using nat_decimal_nonempty[of "a div 1000000"] by (cases A) (auto simp: A_def)
  have c: "c \<noteq> CHR ''-''" using hd_nat_decimal[of "a div 1000000"] A by (simp add: A_def)
  have neg: "(take 1 (Sprintf_f m) = ''-'') = (m < 0)"
    using c by (simp add: s A)
  have u: "(if m < 0 then drop 1 (Sprintf_f m) else Sprintf_f m) = A @ ''.'' @ F"
    by (simp add: s)
  have Ap: "x \<noteq> CHR ''.''" if xA: "x \<in> set A" for x
  proof -
    obtain d where "d < 10" "x = digit_char d"
      using xA digits_nat_decimal unfolding A_def by blast
    then show ?thesis using digit_char_not_point by simp
  qed
  have ip: "takeWhile (\<lambda>c. c \<noteq> CHR ''.'') (A @ ''.'' @ F) = A"
    using Ap by (simp add: takeWhile_append2)
  have fp: "drop 1 (dropWhile (\<lambda>c. c \<noteq> CHR ''.'') (A @ ''.'' @ F)) = F"
    using Ap by (simp add: dropWhile_append2)
  have rA: "read_nat A = Some (a div 1000000)" by (simp add: A_def read_nat_decimal)
  have dF: "\<exists>d. digit_value c = Some d" if "c \<in> set F" for c
  proof -
    have "c = CHR ''0'' \<or> c \<in> set (nat_decimal (a mod 1000000))"
      using that unfolding F_def by auto
    then show ?thesis
    proof
      assume "c = CHR ''0''"
      then show ?thesis using digit_value_zero by simp
    next
      assume "c \<in> set (nat_decimal (a mod 1000000))"
      then obtain d where "d < 10" "c = digit_char d" using digits_nat_decimal by blast
      then show ?thesis using digit_value_digit_char by simp
    qed
  qed
  have dF9: "\<And>c. c \<in> set (take 9 (F @ replicate 9 CHR ''0'')) \<Longrightarrow> \<exists>d. digit_value c = Some d"
  proof -
    fix c assume "c \<in> set (take 9 (F @ replicate 9 CHR ''0''))"
    then have "c \<in> set F \<or> c = CHR ''0''"
      using set_take_subset[of 9 "F @ replicate 9 CHR ''0''"] by auto
    then show "\<exists>d. digit_value c = Some d" using dF digit_value_zero by blast
  qed
  obtain f1 where f1: "read_digits 0 F = Some f1" using read_digits_total[OF dF] by blast
  obtain f2 where f2: "read_digits 0 (take 9 (F @ replicate 9 CHR ''0'')) = Some f2"
    using read_digits_total[OF dF9] by blast
  show ?thesis
    unfolding read_seconds_def Let_def neg u ip fp using rA f1 f2 by simp
qed

subsection \<open>Instants\<close>

lemma UnixNano_fits: "fits_int64 t \<Longrightarrow> UnixNano t = t"
  by (simp add: UnixNano_def fits_int64_def sint_sbintrunc' signed_take_bit_int_eq_self)

lemma round_whole_milliseconds:
  assumes "fits_int64 (Time f)" and "fits_int64 (Time t)"
  shows "util_RoundToMilliseconds (Time f) (Time t) = (f, t)"
proof -
  have "- (- (x * 1000000) div 1000000) = x" for x :: int
  proof -
    have "- (x * 1000000) = (- x) * 1000000" by simp
    then have "- (x * 1000000) div 1000000 = - x" by (simp only: nonzero_mult_div_cancel_right)
    then show ?thesis by simp
  qed
  then show ?thesis
    using assms by (simp add: util_RoundToMilliseconds_def UnixNano_fits Time_def)
qed

subsection \<open>The encoded request\<close>

lemma encode_shape:
  assumes "EncodeRequest D ctx r = Inr req" and "encode_variant D r = Inr (p, params)"
  shows "URL_Path req = p" and "RawQuery req = Values_Encode D params"
  using assms by (auto simp: EncodeRequest_def split: sum.splits)

lemma encode_variant_defined:
  assumes "EncodeRequest D ctx r = Inr req"
  obtains p params where "encode_variant D r = Inr (p, params)"
  using assms by (auto simp: EncodeRequest_def split: sum.splits)

lemma standard_fields:
  "getOperation (standard_deps D) = route_table"
  "ParseForm (standard_deps D) = http_ParseForm"
  "ParseRangeQuery (standard_deps D) = loghttp_ParseRangeQuery"
  "ParseInstantQuery (standard_deps D) = loghttp_ParseInstantQuery"
  "ParseAndValidateSeriesQuery (standard_deps D) = loghttp_ParseAndValidateSeriesQuery"
  "ParseLabelQuery (standard_deps D) = loghttp_ParseLabelQuery"
  "ParseIndexStatsQuery (standard_deps D) = loghttp_ParseIndexStatsQuery"
  "ParseVolumeInstantQuery (standard_deps D) = loghttp_ParseVolumeInstantQuery"
  "ParseVolumeRangeQuery (standard_deps D) = loghttp_ParseVolumeRangeQuery"
  "RoundToMilliseconds (standard_deps D) = util_RoundToMilliseconds"
  "Values_Encode (standard_deps D) = Encode"
  by (simp_all add: standard_deps_def)

lemma fixed_routes:
  "route_table ''/loki/api/v1/query_range'' = Some QueryRangeOp"
  "route_table ''/loki/api/v1/query'' = Some InstantQueryOp"
  "route_table ''/loki/api/v1/series'' = Some SeriesOp"
  "route_table ''/loki/api/v1/index/stats'' = Some IndexStatsOp"
  "route_table ''/loki/api/v1/index/volume'' = Some VolumeOp"
  "route_table ''/loki/api/v1/index/volume_range'' = Some VolumeRangeOp"
  by (simp_all add: route_table_def is_label_values_path_def)

lemma get_range:
  "Values_Get (params_LokiRequest D r) ''query'' = [Req_Query r]"
  "Values_Get (params_LokiRequest D r) ''start'' = [Sprintf_d (UnixNano (Req_StartTs r))]"
  "Values_Get (params_LokiRequest D r) ''end'' = [Sprintf_d (UnixNano (Req_EndTs r))]"
  "Values_Get (params_LokiRequest D r) ''direction'' = [Direction_String (Req_Direction r)]"
  "Values_Get (params_LokiRequest D r) ''limit'' = [Sprintf_d (uint (Req_Limit r))]"
  "Values_Get (params_LokiRequest D r) ''shards'' = Req_Shards r"
  "Values_Get (params_LokiRequest D r) ''step''
     = (if Req_Step r \<noteq> 0 then [Sprintf_seconds D (Req_Step r)] else [])"
  "Values_Get (params_LokiRequest D r) ''interval''
     = (if Req_Interval r \<noteq> 0 then [Sprintf_seconds D (Req_Interval r)] else [])"
  "distinct (map fst (params_LokiRequest D r))"
  by (simp_all add: Values_Get_def params_LokiRequest_def)

lemma get_instant:
  "Values_Get (params_LokiInstantRequest r) ''query'' = [Inst_Query r]"
  "Values_Get (params_LokiInstantRequest r) ''time'' = [Sprintf_d (UnixNano (Inst_TimeTs r))]"
  "Values_Get (params_LokiInstantRequest r) ''direction'' = [Direction_String (Inst_Direction r)]"
  "Values_Get (params_LokiInstantRequest r) ''limit'' = [Sprintf_d (uint (Inst_Limit r))]"
  "Values_Get (params_LokiInstantRequest r) ''shards'' = Inst_Shards r"
  "distinct (map fst (params_LokiInstantRequest r))"
  by (simp_all add: Values_Get_def params_LokiInstantRequest_def)

lemma get_series:
  "Values_Get (params_LokiSeriesRequest r) ''start'' = [Sprintf_d (UnixNano (Ser_StartTs r))]"
  "Values_Get (params_LokiSeriesRequest r) ''end'' = [Sprintf_d (UnixNano (Ser_EndTs r))]"
  "Values_Get (params_LokiSeriesRequest r) ''match[]'' = Ser_Match r"
  "Values_Get (params_LokiSeriesRequest r) ''shards'' = Ser_Shards r"
  "distinct (map fst (params_LokiSeriesRequest r))"
  by (simp_all add: Values_Get_def params_LokiSeriesRequest_def)

lemma get_label:
  "Values_Get (params_LabelRequest s e r) ''query'' = [Lbl_Query (LabelRequest r)]"
  "Values_Get (params_LabelRequest s e r) ''start'' = [Sprintf_d (UnixNano s)]"
  "Values_Get (params_LabelRequest s e r) ''end'' = [Sprintf_d (UnixNano e)]"
  "distinct (map fst (params_LabelRequest s e r))"
  by (simp_all add: Values_Get_def params_LabelRequest_def)

lemma get_index_stats:
  "Values_Get (params_IndexStatsRequest r) ''query'' = [Matchers r]"
  "Values_Get (params_IndexStatsRequest r) ''start'' = [Sprintf_d (UnixNano (Time (From r)))]"
  "Values_Get (params_IndexStatsRequest r) ''end'' = [Sprintf_d (UnixNano (Time (Through r)))]"
  "distinct (map fst (params_IndexStatsRequest r))"
  by (simp_all add: Values_Get_def params_IndexStatsRequest_def)

lemma get_volume:
  "Values_Get (params_VolumeRequest D r) ''query'' = [Vol_Matchers r]"
  "Values_Get (params_VolumeRequest D r) ''start'' = [Sprintf_d (UnixNano (Time (Vol_From r)))]"
  "Values_Get (params_VolumeRequest D r) ''end'' = [Sprintf_d (UnixNano (Time (Vol_Through r)))]"
  "Values_Get (params_VolumeRequest D r) ''limit'' = [Sprintf_d (sint (Vol_Limit r))]"
  "Values_Get (params_VolumeRequest D r) ''step''
     = (if Vol_Step r \<noteq> 0 then [Sprintf_seconds D (Vol_Step r)] else [])"
  "distinct (map fst (params_VolumeRequest D r))"
  by (simp_all add: Values_Get_def params_VolumeRequest_def)

lemma form_of_encoded:
  assumes "EncodeRequest (standard_deps D) ctx r = Inr req"
    and "encode_variant (standard_deps D) r = Inr (p, params)"
    and "distinct (map fst params)"
  shows "http_ParseForm req = None"
    and "Values_Get (Form req) k = Values_Get params k"
    and "Get (Form req) k = Get params k"
proof -
  have q: "RawQuery req = Encode params"
    using encode_shape(2)[OF assms(1,2)] by (simp add: standard_fields)
  show "http_ParseForm req = None"
    by (simp add: http_ParseForm_def q parseQuery_Encode(1)[OF assms(3)])
  show v: "Values_Get (Form req) k = Values_Get params k"
    by (simp add: Form_def q parseQuery_Encode(2)[OF assms(3)])
  show "Get (Form req) k = Get params k"
    by (simp add: Get_def v)
qed

lemma read_optional_seconds_total:
  "\<exists>d. read_optional_seconds (Get [] k) = Some d"
  "\<exists>d. read_optional_seconds (case (if c then [Sprintf_seconds D ms] else []) of
                                 [] \<Rightarrow> [] | x # _ \<Rightarrow> x) = Some d"
proof -
  show "\<exists>d. read_optional_seconds (Get [] k) = Some d"
    by (simp add: read_optional_seconds_def Get_def Values_Get_def)
  show "\<exists>d. read_optional_seconds (case (if c then [Sprintf_seconds D ms] else []) of
                                 [] \<Rightarrow> [] | x # _ \<Rightarrow> x) = Some d"
    using read_seconds_Sprintf_f[of "Seconds_rounded D ms"]
    by (auto simp: read_optional_seconds_def Sprintf_seconds_def)
qed

subsection \<open>The round trip, variant by variant\<close>

lemma roundtrip_range:
  assumes enc: "EncodeRequest (standard_deps D) ctx (RangeReq x) = Inr req"
    and fits: "fits_int64 (Req_StartTs x)" "fits_int64 (Req_EndTs x)"
  shows "\<exists>st iv. DecodeRequest (standard_deps D) req =
      Inr (RangeReq \<lparr>Req_Query = Req_Query x, Req_Limit = Req_Limit x,
             Req_Step = Milliseconds st, Req_Interval = Milliseconds iv,
             Req_StartTs = Req_StartTs x, Req_EndTs = Req_EndTs x,
             Req_Direction = Req_Direction x, Req_Path = ''/loki/api/v1/query_range'',
             Req_Shards = Req_Shards x\<rparr>)"
proof -
  let ?D = "standard_deps D"
  let ?ps = "params_LokiRequest ?D x"
  have var: "encode_variant ?D (RangeReq x) = Inr (''/loki/api/v1/query_range'', ?ps)" by simp
  note f = form_of_encoded[OF enc var get_range(9)]
  have p: "URL_Path req = ''/loki/api/v1/query_range''" using encode_shape(1)[OF enc var] .
  obtain st where st: "read_optional_seconds (Get ?ps ''step'') = Some st"
    using read_optional_seconds_total(2)[of "Req_Step x \<noteq> 0" ?D "Req_Step x"]
    by (auto simp: Get_def get_range)
  obtain iv where iv: "read_optional_seconds (Get ?ps ''interval'') = Some iv"
    using read_optional_seconds_total(2)[of "Req_Interval x \<noteq> 0" ?D "Req_Interval x"]
    by (auto simp: Get_def get_range)
  have g: "Get ?ps ''start'' = Sprintf_d (Req_StartTs x)" "Get ?ps ''end'' = Sprintf_d (Req_EndTs x)"
    "Get ?ps ''query'' = Req_Query x" "Get ?ps ''direction'' = Direction_String (Req_Direction x)"
    "Get ?ps ''limit'' = Sprintf_d (uint (Req_Limit x))"
    using fits by (simp_all add: Get_def get_range UnixNano_fits)
  have "loghttp_ParseRangeQuery req =
      Inr \<lparr>RQ_Start = Req_StartTs x, RQ_End = Req_EndTs x, RQ_Step = st, RQ_Interval = iv,
           RQ_Query = Req_Query x, RQ_Direction = Req_Direction x, RQ_Limit = Req_Limit x,
           RQ_Shards = Req_Shards x\<rparr>"
    by (simp add: loghttp_ParseRangeQuery_def Let_def f g st iv get_range read_int_Sprintf_d
        read_Direction_String)
  then have "DecodeRequest ?D req =
      Inr (RangeReq \<lparr>Req_Query = Req_Query x, Req_Limit = Req_Limit x,
             Req_Step = Milliseconds st, Req_Interval = Milliseconds iv,
             Req_StartTs = Req_StartTs x, Req_EndTs = Req_EndTs x,
             Req_Direction = Req_Direction x, Req_Path = ''/loki/api/v1/query_range'',
             Req_Shards = Req_Shards x\<rparr>)"
    by (simp add: DecodeRequest_def standard_fields f(1) p fixed_routes
        decode_QueryRange_def)
  then show ?thesis by blast
qed

lemma roundtrip_instant:
  assumes enc: "EncodeRequest (standard_deps D) ctx (InstantReq x) = Inr req"
    and fits: "fits_int64 (Inst_TimeTs x)"
  shows "DecodeRequest (standard_deps D) req =
      Inr (InstantReq \<lparr>Inst_Query = Inst_Query x, Inst_Limit = Inst_Limit x,
             Inst_TimeTs = Inst_TimeTs x, Inst_Direction = Inst_Direction x,
             Inst_Path = ''/loki/api/v1/query'', Inst_Shards = Inst_Shards x\<rparr>)"
proof -
  let ?D = "standard_deps D"
  let ?ps = "params_LokiInstantRequest x"
  have var: "encode_variant ?D (InstantReq x) = Inr (''/loki/api/v1/query'', ?ps)" by simp
  note f = form_of_encoded[OF enc var get_instant(6)]
  have p: "URL_Path req = ''/loki/api/v1/query''" using encode_shape(1)[OF enc var] .
  have g: "Get ?ps ''time'' = Sprintf_d (Inst_TimeTs x)"
    "Get ?ps ''query'' = Inst_Query x" "Get ?ps ''direction'' = Direction_String (Inst_Direction x)"
    "Get ?ps ''limit'' = Sprintf_d (uint (Inst_Limit x))"
    using fits by (simp_all add: Get_def get_instant UnixNano_fits)
  have "loghttp_ParseInstantQuery req =
      Inr \<lparr>IQ_Ts = Inst_TimeTs x, IQ_Query = Inst_Query x, IQ_Limit = Inst_Limit x,
           IQ_Direction = Inst_Direction x, IQ_Shards = Inst_Shards x\<rparr>"
    by (simp add: loghttp_ParseInstantQuery_def Let_def f g get_instant read_int_Sprintf_d
        read_Direction_String)
  then show ?thesis
    by (simp add: DecodeRequest_def standard_fields f(1) p fixed_routes
        decode_InstantQuery_def)
qed

lemma roundtrip_series:
  assumes enc: "EncodeRequest (standard_deps D) ctx (SeriesReq x) = Inr req"
    and fits: "fits_int64 (Ser_StartTs x)" "fits_int64 (Ser_EndTs x)"
  shows "DecodeRequest (standard_deps D) req =
      Inr (SeriesReq \<lparr>Ser_Match = Ser_Match x, Ser_StartTs = Ser_StartTs x,
             Ser_EndTs = Ser_EndTs x, Ser_Path = ''/loki/api/v1/series'',
             Ser_Shards = Ser_Shards x\<rparr>)"
proof -
  let ?D = "standard_deps D"
  let ?ps = "params_LokiSeriesRequest x"
  have var: "encode_variant ?D (SeriesReq x) = Inr (''/loki/api/v1/series'', ?ps)" by simp
  note f = form_of_encoded[OF enc var get_series(5)]
  have p: "URL_Path req = ''/loki/api/v1/series''" using encode_shape(1)[OF enc var] .
  have g: "Get ?ps ''start'' = Sprintf_d (Ser_StartTs x)" "Get ?ps ''end'' = Sprintf_d (Ser_EndTs x)"
    using fits by (simp_all add: Get_def get_series UnixNano_fits)
  have "loghttp_ParseAndValidateSeriesQuery req =
      Inr \<lparr>SQ_Start = Ser_StartTs x, SQ_End = Ser_EndTs x, SQ_Groups = Ser_Match x,
           SQ_Shards = Ser_Shards x\<rparr>"
    by (simp add: loghttp_ParseAndValidateSeriesQuery_def Let_def f g get_series
        read_int_Sprintf_d)
  then show ?thesis
    by (simp add: DecodeRequest_def standard_fields f(1) p fixed_routes decode_Series_def)
qed

lemma roundtrip_label:
  assumes enc: "EncodeRequest (standard_deps D) ctx (LabelReq x) = Inr req"
    and route: "route_table (path x) = Some LabelNamesOp"
    and se: "Lbl_Start (LabelRequest x) = Some s" "Lbl_End (LabelRequest x) = Some e"
    and fits: "fits_int64 s" "fits_int64 e"
  shows "DecodeRequest (standard_deps D) req =
      Inr (LabelReq \<lparr>path = path x,
             LabelRequest = \<lparr>Lbl_Name = [], Lbl_Values = False, Lbl_Start = Some s,
                             Lbl_End = Some e, Lbl_Query = Lbl_Query (LabelRequest x)\<rparr>\<rparr>)"
proof -
  let ?D = "standard_deps D"
  let ?ps = "params_LabelRequest s e x"
  have var: "encode_variant ?D (LabelReq x) = Inr (path x, ?ps)" using se by simp
  note f = form_of_encoded[OF enc var get_label(4)]
  have p: "URL_Path req = path x" using encode_shape(1)[OF enc var] .
  have g: "Get ?ps ''start'' = Sprintf_d s" "Get ?ps ''end'' = Sprintf_d e"
    "Get ?ps ''query'' = Lbl_Query (LabelRequest x)"
    using fits by (simp_all add: Get_def get_label UnixNano_fits)
  have "loghttp_ParseLabelQuery req =
      Inr \<lparr>Lbl_Name = [], Lbl_Values = False, Lbl_Start = Some s, Lbl_End = Some e,
           Lbl_Query = Lbl_Query (LabelRequest x)\<rparr>"
    by (simp add: loghttp_ParseLabelQuery_def Let_def f g read_int_Sprintf_d)
  then show ?thesis
    by (simp add: DecodeRequest_def standard_fields f(1) p route decode_LabelNames_def)
qed

lemma roundtrip_index_stats:
  assumes enc: "EncodeRequest (standard_deps D) ctx (IndexStatsReq x) = Inr req"
    and fits: "fits_int64 (Time (From x))" "fits_int64 (Time (Through x))"
  shows "DecodeRequest (standard_deps D) req =
      Inr (IndexStatsReq \<lparr>From = From x, Through = Through x, Matchers = Matchers x\<rparr>)"
proof -
  let ?D = "standard_deps D"
  let ?ps = "params_IndexStatsRequest x"
  have var: "encode_variant ?D (IndexStatsReq x) = Inr (''/loki/api/v1/index/stats'', ?ps)"
    by simp
  note f = form_of_encoded[OF enc var get_index_stats(4)]
  have p: "URL_Path req = ''/loki/api/v1/index/stats''" using encode_shape(1)[OF enc var] .
  have g: "Get ?ps ''start'' = Sprintf_d (Time (From x))"
    "Get ?ps ''end'' = Sprintf_d (Time (Through x))" "Get ?ps ''query'' = Matchers x"
    using fits by (simp_all add: Get_def get_index_stats UnixNano_fits)
  have "loghttp_ParseIndexStatsQuery req =
      Inr \<lparr>ISQ_Start = Time (From x), ISQ_End = Time (Through x), ISQ_Query = Matchers x\<rparr>"
    by (simp add: loghttp_ParseIndexStatsQuery_def Let_def f g read_int_Sprintf_d)
  then show ?thesis
    by (simp add: DecodeRequest_def standard_fields f(1) p fixed_routes
        decode_IndexStats_def round_whole_milliseconds[OF fits])
qed

lemma roundtrip_volume:
  assumes enc: "EncodeRequest (standard_deps D) ctx (VolumeReq x) = Inr req"
    and fits: "fits_int64 (Time (Vol_From x))" "fits_int64 (Time (Vol_Through x))"
  shows "\<exists>st tl ab. DecodeRequest (standard_deps D) req =
      Inr (VolumeReq \<lparr>Vol_From = Vol_From x, Vol_Through = Vol_Through x,
             Vol_Matchers = Vol_Matchers x, Vol_Limit = Vol_Limit x, Vol_Step = st,
             Vol_TargetLabels = tl, Vol_AggregateBy = ab\<rparr>)"
proof -
  let ?D = "standard_deps D"
  let ?ps = "params_VolumeRequest ?D x"
  let ?p = "if Vol_Step x \<noteq> 0 then ''/loki/api/v1/index/volume_range''
            else ''/loki/api/v1/index/volume''"
  have var: "encode_variant ?D (VolumeReq x) = Inr (?p, ?ps)" by simp
  note f = form_of_encoded[OF enc var get_volume(6)]
  have p: "URL_Path req = ?p" using encode_shape(1)[OF enc var] .
  obtain st where st: "read_optional_seconds (Get ?ps ''step'') = Some st"
    using read_optional_seconds_total(2)[of "Vol_Step x \<noteq> 0" ?D "Vol_Step x"]
    by (auto simp: Get_def get_volume)
  have g: "Get ?ps ''start'' = Sprintf_d (Time (Vol_From x))"
    "Get ?ps ''end'' = Sprintf_d (Time (Vol_Through x))" "Get ?ps ''query'' = Vol_Matchers x"
    "Get ?ps ''limit'' = Sprintf_d (sint (Vol_Limit x))"
    using fits by (simp_all add: Get_def get_volume UnixNano_fits)
  show ?thesis
  proof (cases "Vol_Step x \<noteq> 0")
    case True
    have "loghttp_ParseVolumeRangeQuery req =
        Inr \<lparr>VRQ_Start = Time (Vol_From x), VRQ_End = Time (Vol_Through x), VRQ_Step = st,
             VRQ_Query = Vol_Matchers x, VRQ_Limit = Vol_Limit x,
             VRQ_TargetLabels = read_targetLabels (Get ?ps ''targetLabels''),
             VRQ_AggregateBy = Get ?ps ''aggregateBy''\<rparr>"
      by (simp add: loghttp_ParseVolumeRangeQuery_def Let_def f g st read_int_Sprintf_d)
    then show ?thesis
      using True
      by (simp add: DecodeRequest_def standard_fields f(1) p fixed_routes
          decode_VolumeRange_def round_whole_milliseconds[OF fits])
  next
    case False
    have "loghttp_ParseVolumeInstantQuery req =
        Inr \<lparr>VIQ_Start = Time (Vol_From x), VIQ_End = Time (Vol_Through x),
             VIQ_Query = Vol_Matchers x, VIQ_Limit = Vol_Limit x,
             VIQ_TargetLabels = read_targetLabels (Get ?ps ''targetLabels''),
             VIQ_AggregateBy = Get ?ps ''aggregateBy''\<rparr>"
      by (simp add: loghttp_ParseVolumeInstantQuery_def Let_def f g read_int_Sprintf_d)
    then show ?thesis
      using False
      by (simp add: DecodeRequest_def standard_fields f(1) p fixed_routes
          decode_Volume_def round_whole_milliseconds[OF fits])
  qed
qed

lemma roundtrip:
  assumes enc: "EncodeRequest (standard_deps D) ctx r = Inr req"
    and label: "label_path_routed r"
    and fits: "bounds_fit_int64 r"
  shows "\<exists>r' f. DecodeRequest (standard_deps D) req = Inr r' \<and> ParamsFromRequest r = Inr f
           \<and> ParamsFromRequest r' = Inr f"
proof (cases r)
  case (RangeReq x)
  then show ?thesis using roundtrip_range[of D ctx x req] enc fits by auto
next
  case (InstantReq x)
  then show ?thesis using roundtrip_instant[of D ctx x req] enc fits by auto
next
  case (SeriesReq x)
  then show ?thesis using roundtrip_series[of D ctx x req] enc fits by auto
next
  case (LabelReq x)
  obtain p params where "encode_variant (standard_deps D) r = Inr (p, params)"
    using encode_variant_defined[OF enc] by blast
  then obtain s e where se: "Lbl_Start (LabelRequest x) = Some s" "Lbl_End (LabelRequest x) = Some e"
    using LabelReq by (auto split: option.splits)
  then show ?thesis
    using roundtrip_label[of D ctx x req s e] enc fits label LabelReq by auto
next
  case (IndexStatsReq x)
  then show ?thesis using roundtrip_index_stats[of D ctx x req] enc fits by auto
next
  case (VolumeReq x)
  then show ?thesis using roundtrip_volume[of D ctx x req] enc fits by auto
next
  case (OtherReq t)
  then show ?thesis using enc by (simp add: EncodeRequest_def split: sum.splits)
qed

text \<open>
  C2, as amended. Take a Request Variant that the encoder accepts (a tenant in the context,
  and for a label request both bounds present) whose time bounds are instants with a
  nanosecond count that fits an int64 (the years 1678 to 2262) and, for a label request,
  whose path is a label route. Then decoding the encoded request succeeds, and the decoded
  request has the query text, the time bounds, the limit, the direction and the shards of
  the original, as \<open>ParamsFromRequest\<close> views them. The route table, the parsing of the
  query string and the parsers of the parameters are the ones modelled above.
\<close>

theorem encode_decode_roundtrip:
  assumes "EncodeRequest (standard_deps D) ctx r = Inr req"
    and "label_path_routed r"
    and "bounds_fit_int64 r"
  shows "\<exists>r' f. DecodeRequest (standard_deps D) req = Inr r' \<and> ParamsFromRequest r = Inr f
           \<and> ParamsFromRequest r' = Inr f"
  using assms by (rule roundtrip)

lemma digit_chars:
  "digit_char 0 = CHR ''0''" "digit_char 1 = CHR ''1''" "digit_char 2 = CHR ''2''"
  "digit_char 3 = CHR ''3''" "digit_char 4 = CHR ''4''" "digit_char 5 = CHR ''5''"
  "digit_char 6 = CHR ''6''" "digit_char 7 = CHR ''7''" "digit_char 8 = CHR ''8''"
  "digit_char 9 = CHR ''9''" "digit_char (Suc 0) = CHR ''1''"
  by code_simp+

lemma upperhex_chars:
  "upperhex 3 = CHR ''3''" "upperhex 7 = CHR ''7''" "upperhex 11 = CHR ''B''"
  "upperhex 13 = CHR ''D''"
  by code_simp+

lemma char_codes:
  "char_of (123 :: nat) = CHR ''{''" "char_of (61 :: nat) = CHR ''=''"
  "char_of (125 :: nat) = CHR ''}''"
  by code_simp+

lemma standard_example_deps: "standard_deps example_deps = example_deps"
  by (simp add: standard_deps_def example_deps_def)

lemma UnixNano_zero_Time: "UnixNano zero_Time = - 6795364578871345152"
  by (simp add: UnixNano_def zero_Time_def int_word_sint)

lemmas encode_eval =
  EncodeRequest_def encode_header_def getQueryTags_def tenant_context_def example_deps_def
  Header_Set_def Encode_def shouldEscape_def upperhex_chars Sprintf_d_def nat_decimal.simps
  digit_chars

lemmas decode_eval =
  DecodeRequest_def example_deps_def route_table_def is_label_values_path_def
  http_ParseForm_def Form_def parseQuery.simps ishex_def unhex_def Values_Get_def Get_def
  read_int_def read_nat_def digit_value_def read_Direction_def read_optional_seconds_def
  Milliseconds_def Errorf_def StatusNotFound_def char_codes

theorem encode_decode_roundtrip_witness:
  "EncodeRequest example_deps tenant_context (RangeReq range_request) = Inr encoded_range_request
   \<and> label_path_routed (RangeReq range_request)
   \<and> bounds_fit_int64 (RangeReq range_request)
   \<and> DecodeRequest example_deps encoded_range_request = Inr (RangeReq range_request)
   \<and> (\<exists>r' f. DecodeRequest example_deps encoded_range_request = Inr r'
          \<and> ParamsFromRequest (RangeReq range_request) = Inr f
          \<and> ParamsFromRequest r' = Inr f)"
proof -
  have e: "EncodeRequest (standard_deps example_deps) tenant_context (RangeReq range_request)
      = Inr encoded_range_request"
    unfolding standard_example_deps
    by (simp add: encode_eval params_LokiRequest_def range_request_def
        encoded_range_request_def UnixNano_def)
  have l: "label_path_routed (RangeReq range_request)" by simp
  have b: "bounds_fit_int64 (RangeReq range_request)"
    by (simp add: range_request_def fits_int64_def)
  have d: "DecodeRequest example_deps encoded_range_request = Inr (RangeReq range_request)"
    by (simp add: decode_eval decode_QueryRange_def loghttp_ParseRangeQuery_def
        encoded_range_request_def range_request_def)
  from encode_decode_roundtrip[OF e l b]
  show ?thesis
    using e l b d unfolding standard_example_deps by blast
qed

theorem encode_decode_roundtrip_counterexample:
  "EncodeRequest example_deps tenant_context (LabelReq foo_label_request)
     = Inr encoded_foo_label_request
   \<and> DecodeRequest example_deps encoded_foo_label_request
     = Inl (HTTPError 404 ''unknown request path: /foo'')
   \<and> EncodeRequest example_deps tenant_context (InstantReq zero_time_request)
     = Inr encoded_zero_time_request
   \<and> DecodeRequest example_deps encoded_zero_time_request
     = Inr (InstantReq (zero_time_request\<lparr>Inst_TimeTs := - 6795364578871345152\<rparr>))
   \<and> Inst_TimeTs zero_time_request = - 62135596800000000000"
proof -
  have 1: "EncodeRequest example_deps tenant_context (LabelReq foo_label_request)
     = Inr encoded_foo_label_request"
    by (simp add: encode_eval params_LabelRequest_def foo_label_request_def
        encoded_foo_label_request_def UnixNano_def)
  have 2: "DecodeRequest example_deps encoded_foo_label_request
     = Inl (HTTPError 404 ''unknown request path: /foo'')"
    by (simp add: decode_eval encoded_foo_label_request_def)
  have 3: "EncodeRequest example_deps tenant_context (InstantReq zero_time_request)
     = Inr encoded_zero_time_request"
    by (simp add: encode_eval params_LokiInstantRequest_def zero_time_request_def
        encoded_zero_time_request_def UnixNano_zero_Time)
  have 4: "DecodeRequest example_deps encoded_zero_time_request
     = Inr (InstantReq (zero_time_request\<lparr>Inst_TimeTs := - 6795364578871345152\<rparr>))"
    by (simp add: decode_eval decode_InstantQuery_def loghttp_ParseInstantQuery_def
        encoded_zero_time_request_def zero_time_request_def)
  have 5: "Inst_TimeTs zero_time_request = - 62135596800000000000"
    by (simp add: zero_time_request_def zero_Time_def)
  show ?thesis using 1 2 3 4 5 by blast
qed

end
